theory Spec2Isabelle
  imports Main "HOL-Library.AList"
begin

section \<open>Access-control predicates (src/access)\<close>

text \<open>
  The request carries \<^verbatim>\<open>req.user\<close>, which is \<^verbatim>\<open>null\<close> for an anonymous caller and a
  user document otherwise. A user document has a numeric identifier (the row id of the
  SQLite table) and a \<^verbatim>\<open>roles\<close> field that can be missing (\<^verbatim>\<open>null\<close> or \<^verbatim>\<open>undefined\<close>);
  its other fields stay in the extension part of the record. The fields a client supplies
  when it creates a user (\<open>user_fields\<close>) have no identifier yet.
  The optional chain \<^verbatim>\<open>user?.roles?.includes('admin')\<close> yields \<^verbatim>\<open>undefined\<close> when the user
  or the roles list is missing, and \<^verbatim>\<open>undefined\<close> is falsy.
\<close>

record user_fields =
  roles :: "string list option"

record user = user_fields +
  user_id :: int

text \<open>
  An access function returns a boolean or a query constraint of the shape
  \<^verbatim>\<open>{ field: { equals: value } }\<close>. The two values compared by the source are a user id
  and the string \<^verbatim>\<open>'published'\<close>.
\<close>

datatype operand = IdValue int | StringValue string

datatype access_result =
    AccessBool bool
  | WhereEquals string operand

text \<open>\<^verbatim>\<open>user?.roles?.includes(r)\<close>, read as a condition.\<close>

definition roles_include :: "'a user_scheme option \<Rightarrow> string \<Rightarrow> bool" where
  "roles_include u r =
     (case u of
        None \<Rightarrow> False
      | Some usr \<Rightarrow> (case roles usr of None \<Rightarrow> False | Some rs \<Rightarrow> r \<in> set rs))"

definition adminOnly :: "'a user_scheme option \<Rightarrow> bool" where
  "adminOnly u = roles_include u ''admin''"

definition adminOnlyFieldAccess :: "'a user_scheme option \<Rightarrow> bool" where
  "adminOnlyFieldAccess u = roles_include u ''admin''"

text \<open>
  \<^verbatim>\<open>if (user?.id)\<close> tests the identifier for truthiness: a missing user gives
  \<^verbatim>\<open>undefined\<close>, and the number \<^verbatim>\<open>0\<close> is falsy as well.
\<close>

definition adminOrCustomerOwner :: "'a user_scheme option \<Rightarrow> access_result" where
  "adminOrCustomerOwner u =
     (if roles_include u ''admin'' then AccessBool True
      else (case u of
              None \<Rightarrow> AccessBool False
            | Some usr \<Rightarrow>
                if user_id usr \<noteq> 0
                then WhereEquals ''customer'' (IdValue (user_id usr))
                else AccessBool False))"

definition adminOrPublishedStatus :: "'a user_scheme option \<Rightarrow> access_result" where
  "adminOrPublishedStatus u =
     (if roles_include u ''admin'' then AccessBool True
      else WhereEquals ''_status'' (StringValue ''published''))"

definition customerOnlyFieldAccess :: "'a user_scheme option \<Rightarrow> bool" where
  "customerOnlyFieldAccess u = roles_include u ''customer''"


section \<open>The Users collection\<close>

text \<open>
  The \<^verbatim>\<open>roles\<close> field is declared with \<^verbatim>\<open>defaultValue: ['customer']\<close>. The framework
  fills a field that the incoming data leaves undefined with its default value while it
  validates the data, before the collection's \<^verbatim>\<open>beforeChange\<close> hooks run.
\<close>

definition roles_defaultValue :: "string list" where
  "roles_defaultValue = [''customer'']"

definition apply_roles_default :: "'a user_fields_scheme \<Rightarrow> 'a user_fields_scheme" where
  "apply_roles_default data =
     (case roles data of
        None \<Rightarrow> data\<lparr>roles := Some roles_defaultValue\<rparr>
      | Some rs \<Rightarrow> data)"

text \<open>
  \<^verbatim>\<open>req.payload.count({ collection: 'users' })\<close> answers with the number of stored user
  documents in \<^verbatim>\<open>totalDocs\<close>; the stored documents are the list \<open>existing\<close>.
\<close>

definition totalDocs :: "'d list \<Rightarrow> nat" where
  "totalDocs existing = length existing"

definition users_beforeChange ::
    "string \<Rightarrow> 'd list \<Rightarrow> 'a user_fields_scheme \<Rightarrow> 'a user_fields_scheme" where
  "users_beforeChange operation existing data =
     (if operation = ''create''
      then (if totalDocs existing = 0 then data\<lparr>roles := Some [''admin'']\<rparr> else data)
      else data)"

text \<open>What the hook receives and returns when a client creates a user.\<close>

definition users_create_data ::
    "'d list \<Rightarrow> 'a user_fields_scheme \<Rightarrow> 'a user_fields_scheme" where
  "users_create_data existing data =
     users_beforeChange ''create'' existing (apply_roles_default data)"

section \<open>The products override\<close>

text \<open>
  A JavaScript string is a sequence of UTF-16 code units, and a regular expression
  without the \<^verbatim>\<open>u\<close> flag reads it one code unit at a time.
\<close>

type_synonym jsstring = "nat list"

definition hyphen :: nat where
  "hyphen = 45"

text \<open>The character class \<^verbatim>\<open>[a-z0-9]\<close>: code units 97 to 122 and 48 to 57.\<close>

definition is_a_z0_9 :: "nat \<Rightarrow> bool" where
  "is_a_z0_9 c \<longleftrightarrow> (97 \<le> c \<and> c \<le> 122) \<or> (48 \<le> c \<and> c \<le> 57)"

text \<open>
  \<^verbatim>\<open>.replace(/[^a-z0-9]+/g, '-')\<close>: the scan goes from left to right; a code unit inside the
  class is copied, and at a code unit outside the class the greedy \<^verbatim>\<open>+\<close> takes the whole
  run of such code units, which a single hyphen replaces.
\<close>

function replace_non_alnum_runs :: "jsstring \<Rightarrow> jsstring" where
  "replace_non_alnum_runs [] = []"
| "replace_non_alnum_runs (c # cs) =
     (if is_a_z0_9 c then c # replace_non_alnum_runs cs
      else hyphen # replace_non_alnum_runs (dropWhile (\<lambda>x. \<not> is_a_z0_9 x) cs))"
  by pat_completeness auto
termination
  by (relation "measure length") (auto simp: le_imp_less_Suc length_dropWhile_le)

text \<open>
  \<^verbatim>\<open>.replace(/^-|-$/g, '')\<close>: at each position the expression matches a hyphen that stands
  at the start of the input (\<^verbatim>\<open>^-\<close>) or at its end (\<^verbatim>\<open>-$\<close>), and the match is deleted.
  \<open>at_start\<close> tells whether the scan is at position 0.
\<close>

fun strip_edge_hyphens_from :: "bool \<Rightarrow> jsstring \<Rightarrow> jsstring" where
  "strip_edge_hyphens_from at_start [] = []"
| "strip_edge_hyphens_from at_start (c # cs) =
     (if c = hyphen \<and> (at_start \<or> cs = [])
      then strip_edge_hyphens_from False cs
      else c # strip_edge_hyphens_from False cs)"

definition strip_edge_hyphens :: "jsstring \<Rightarrow> jsstring" where
  "strip_edge_hyphens s = strip_edge_hyphens_from True s"

text \<open>
  \<^verbatim>\<open>String.prototype.toLowerCase\<close> follows the Unicode case mappings of the JavaScript
  runtime, which are no part of the repository: the derivation takes the function as the
  parameter \<open>toLowerCase\<close>, and what is proved about it holds for every such function.
\<close>

definition derive_slug :: "(jsstring \<Rightarrow> jsstring) \<Rightarrow> jsstring \<Rightarrow> jsstring" where
  "derive_slug toLowerCase t =
     strip_edge_hyphens (replace_non_alnum_runs (toLowerCase t))"

text \<open>
  On code units below 128 \<^verbatim>\<open>toLowerCase\<close> maps \<^verbatim>\<open>A\<close> to \<^verbatim>\<open>Z\<close> (65 to 90) to \<^verbatim>\<open>a\<close> to \<^verbatim>\<open>z\<close> and
  leaves the rest; \<open>toLowerCase_ascii\<close> is that function, for the concrete examples,
  which are ASCII strings.
\<close>

definition toLowerCase_ascii :: "jsstring \<Rightarrow> jsstring" where
  "toLowerCase_ascii s = map (\<lambda>c. if 65 \<le> c \<and> c \<le> 90 then c + 32 else c) s"

text \<open>
  The data of a product as the hook reads it: \<^verbatim>\<open>title\<close> and \<^verbatim>\<open>slug\<close> are text fields, each
  of them possibly missing (\<open>None\<close>: \<^verbatim>\<open>undefined\<close> or \<^verbatim>\<open>null\<close>); the other fields stay in the
  extension part of the record. \<^verbatim>\<open>data\<close> itself can be undefined, hence the \<^verbatim>\<open>?.\<close> of the
  source and the \<open>option\<close> here.
\<close>

record product_data =
  title :: "jsstring option"
  slug :: "jsstring option"

text \<open>A text value used as a condition: missing values and the empty string are falsy.\<close>

definition truthy :: "jsstring option \<Rightarrow> bool" where
  "truthy v = (case v of None \<Rightarrow> False | Some s \<Rightarrow> s \<noteq> [])"

text \<open>
  The hook mutates \<^verbatim>\<open>data\<close> and returns it; the model returns the new record.
\<close>

definition products_beforeValidate ::
    "(jsstring \<Rightarrow> jsstring) \<Rightarrow> string \<Rightarrow> 'a product_data_scheme option
      \<Rightarrow> 'a product_data_scheme option" where
  "products_beforeValidate toLowerCase operation data =
     (if operation = ''create'' \<or> operation = ''update''
      then (case data of
              None \<Rightarrow> None
            | Some d \<Rightarrow>
                (case title d of
                   None \<Rightarrow> Some d
                 | Some t \<Rightarrow>
                     if t \<noteq> [] \<and> \<not> truthy (slug d)
                     then Some (d\<lparr>slug := Some (derive_slug toLowerCase t)\<rparr>)
                     else Some d))
      else data)"

text \<open>The properties of a slug, as executable predicates.\<close>

fun no_adjacent_hyphens :: "jsstring \<Rightarrow> bool" where
  "no_adjacent_hyphens (c # d # cs) \<longleftrightarrow>
     \<not> (c = hyphen \<and> d = hyphen) \<and> no_adjacent_hyphens (d # cs)"
| "no_adjacent_hyphens cs \<longleftrightarrow> True"

definition starts_with_hyphen :: "jsstring \<Rightarrow> bool" where
  "starts_with_hyphen s = (case s of [] \<Rightarrow> False | c # cs \<Rightarrow> c = hyphen)"

definition ends_with_hyphen :: "jsstring \<Rightarrow> bool" where
  "ends_with_hyphen s = (case rev s of [] \<Rightarrow> False | c # cs \<Rightarrow> c = hyphen)"


section \<open>Migration 20251202_023627 (src/migrations/20251202_023627.ts)\<close>

text \<open>
  The migration is a sequence of SQLite schema statements, each sent with
  \<^verbatim>\<open>await db.run\<close>: a statement that fails rejects the promise and the statements after it
  are not sent. The schema is the content of SQLite's schema table: the rows of the
  tables and the rows of the indexes, in the order of their creation. Table and index
  names share one name space.
\<close>

datatype coltype = IntegerType | TextType

record column =
  col_name :: string
  col_type :: coltype
  col_not_null :: bool
  col_primary_key :: bool

datatype fk_action = NoAction | SetNull | Cascade

record foreign_key =
  fk_column :: string
  fk_ref_table :: string
  fk_ref_column :: string
  fk_on_update :: fk_action
  fk_on_delete :: fk_action

record table_def =
  columns :: "column list"
  foreign_keys :: "foreign_key list"

record index_def =
  idx_table :: string
  idx_columns :: "string list"
  idx_unique :: bool

record schema =
  tables :: "(string \<times> table_def) list"
  indexes :: "(string \<times> index_def) list"

datatype statement =
    CreateTable string "column list" "foreign_key list"
  | CreateIndex bool string string "string list"
  | AddColumn string column
  | DropTable string
  | DropIndex string
  | DropColumn string string

datatype sql_error =
    NameInUse string
  | BadTableDefinition string
  | NoSuchTable string
  | NoSuchIndex string
  | NoSuchColumn string
  | DuplicateColumn string
  | CannotAddColumn string
  | CannotDropColumn string

definition column_names :: "table_def \<Rightarrow> string list" where
  "column_names d = map col_name (columns d)"

definition name_in_use :: "schema \<Rightarrow> string \<Rightarrow> bool" where
  "name_in_use s n \<longleftrightarrow> map_of (tables s) n \<noteq> None \<or> map_of (indexes s) n \<noteq> None"

text \<open>\<^verbatim>\<open>ALTER TABLE\<close> rewrites the row of the table in the schema table.\<close>

definition alter_table ::
    "string \<Rightarrow> table_def \<Rightarrow> (string \<times> table_def) list \<Rightarrow> (string \<times> table_def) list" where
  "alter_table t d ts = map (\<lambda>(n, d0). if n = t then (n, d) else (n, d0)) ts"

definition column_is_indexed :: "schema \<Rightarrow> string \<Rightarrow> string \<Rightarrow> bool" where
  "column_is_indexed s t c \<longleftrightarrow>
     list_ex (\<lambda>(n, i). idx_table i = t \<and> c \<in> set (idx_columns i)) (indexes s)"

definition has_column :: "schema \<Rightarrow> string \<Rightarrow> string \<Rightarrow> bool" where
  "has_column s t c \<longleftrightarrow>
     (case map_of (tables s) t of None \<Rightarrow> False | Some d \<Rightarrow> c \<in> set (column_names d))"

text \<open>
  One statement, as SQLite runs it on the schema:
  \<^item> \<^verbatim>\<open>CREATE TABLE\<close> and \<^verbatim>\<open>CREATE INDEX\<close> fail on a name in use; a table needs a column,
    distinct column names, and the columns its foreign keys constrain; the tables its
    foreign keys refer to are not looked up; an index needs its table and its columns;
  \<^item> \<^verbatim>\<open>ALTER TABLE ADD\<close> needs the table and a new column name, and refuses a primary-key
    column and a \<^verbatim>\<open>NOT NULL\<close> column without default;
  \<^item> \<^verbatim>\<open>DROP TABLE\<close> deletes the table together with the indexes on it;
  \<^item> \<^verbatim>\<open>ALTER TABLE DROP COLUMN\<close> needs the table and the column, and refuses a
    primary-key column, a column of an index or of a foreign key of the table, and the
    only column of a table.
\<close>

fun exec :: "statement \<Rightarrow> schema \<Rightarrow> sql_error + schema" where
  "exec (CreateTable n cols fks) s =
     (if name_in_use s n then Inl (NameInUse n)
      else if cols = [] \<or> \<not> distinct (map col_name cols)
              \<or> \<not> list_all (\<lambda>fk. fk_column fk \<in> set (map col_name cols)) fks
      then Inl (BadTableDefinition n)
      else Inr (s\<lparr>tables := tables s @ [(n, \<lparr>columns = cols, foreign_keys = fks\<rparr>)]\<rparr>))"
| "exec (CreateIndex uniq n t cols) s =
     (if name_in_use s n then Inl (NameInUse n)
      else (case map_of (tables s) t of
              None \<Rightarrow> Inl (NoSuchTable t)
            | Some d \<Rightarrow>
                if \<not> list_all (\<lambda>c. c \<in> set (column_names d)) cols then Inl (NoSuchColumn t)
                else Inr (s\<lparr>indexes := indexes s @
                       [(n, \<lparr>idx_table = t, idx_columns = cols, idx_unique = uniq\<rparr>)]\<rparr>)))"
| "exec (AddColumn t c) s =
     (case map_of (tables s) t of
        None \<Rightarrow> Inl (NoSuchTable t)
      | Some d \<Rightarrow>
          if col_name c \<in> set (column_names d) then Inl (DuplicateColumn (col_name c))
          else if col_primary_key c \<or> col_not_null c then Inl (CannotAddColumn (col_name c))
          else Inr (s\<lparr>tables := alter_table t (d\<lparr>columns := columns d @ [c]\<rparr>) (tables s)\<rparr>))"
| "exec (DropTable t) s =
     (case map_of (tables s) t of
        None \<Rightarrow> Inl (NoSuchTable t)
      | Some d \<Rightarrow>
          Inr (s\<lparr>tables := filter (\<lambda>(n, d0). n \<noteq> t) (tables s),
                 indexes := filter (\<lambda>(n, i). idx_table i \<noteq> t) (indexes s)\<rparr>))"
| "exec (DropIndex n) s =
     (case map_of (indexes s) n of
        None \<Rightarrow> Inl (NoSuchIndex n)
      | Some i \<Rightarrow> Inr (s\<lparr>indexes := filter (\<lambda>(m, j). m \<noteq> n) (indexes s)\<rparr>))"
| "exec (DropColumn t c) s =
     (case map_of (tables s) t of
        None \<Rightarrow> Inl (NoSuchTable t)
      | Some d \<Rightarrow>
          (case find (\<lambda>x. col_name x = c) (columns d) of
             None \<Rightarrow> Inl (NoSuchColumn c)
           | Some x \<Rightarrow>
               if col_primary_key x \<or> c \<in> set (map fk_column (foreign_keys d))
                  \<or> column_is_indexed s t c \<or> length (columns d) \<le> 1
               then Inl (CannotDropColumn c)
               else Inr (s\<lparr>tables :=
                      alter_table t (d\<lparr>columns := filter (\<lambda>x. col_name x \<noteq> c) (columns d)\<rparr>)
                        (tables s)\<rparr>)))"

text \<open>A script: the statements in order, stopping at the first failure.\<close>

fun run :: "statement list \<Rightarrow> schema \<Rightarrow> sql_error + schema" where
  "run [] s = Inr s"
| "run (st # sts) s = (case exec st s of Inl e \<Rightarrow> Inl e | Inr s1 \<Rightarrow> run sts s1)"

definition integer_not_null :: "string \<Rightarrow> column" where
  "integer_not_null n =
     \<lparr>col_name = n, col_type = IntegerType, col_not_null = True, col_primary_key = False\<rparr>"

definition plain_column :: "string \<Rightarrow> coltype \<Rightarrow> column" where
  "plain_column n ty =
     \<lparr>col_name = n, col_type = ty, col_not_null = False, col_primary_key = False\<rparr>"

definition primary_key_column :: "string \<Rightarrow> coltype \<Rightarrow> column" where
  "primary_key_column n ty =
     \<lparr>col_name = n, col_type = ty, col_not_null = True, col_primary_key = True\<rparr>"

definition references :: "string \<Rightarrow> string \<Rightarrow> string \<Rightarrow> fk_action \<Rightarrow> foreign_key" where
  "references c t rc on_del =
     \<lparr>fk_column = c, fk_ref_table = t, fk_ref_column = rc,
      fk_on_update = NoAction, fk_on_delete = on_del\<rparr>"

definition up :: "statement list" where
  "up =
    [CreateTable ''products_gallery''
       [integer_not_null ''_order'',
        integer_not_null ''_parent_id'',
        primary_key_column ''id'' TextType,
        plain_column ''image_id'' IntegerType]
       [references ''image_id'' ''media'' ''id'' SetNull,
        references ''_parent_id'' ''products'' ''id'' Cascade],
     CreateIndex False ''products_gallery_order_idx'' ''products_gallery'' [''_order''],
     CreateIndex False ''products_gallery_parent_id_idx'' ''products_gallery'' [''_parent_id''],
     CreateIndex False ''products_gallery_image_idx'' ''products_gallery'' [''image_id''],
     CreateTable ''_products_v_version_gallery''
       [integer_not_null ''_order'',
        integer_not_null ''_parent_id'',
        primary_key_column ''id'' IntegerType,
        plain_column ''image_id'' IntegerType,
        plain_column ''_uuid'' TextType]
       [references ''image_id'' ''media'' ''id'' SetNull,
        references ''_parent_id'' ''_products_v'' ''id'' Cascade],
     CreateIndex False ''_products_v_version_gallery_order_idx''
       ''_products_v_version_gallery'' [''_order''],
     CreateIndex False ''_products_v_version_gallery_parent_id_idx''
       ''_products_v_version_gallery'' [''_parent_id''],
     CreateIndex False ''_products_v_version_gallery_image_idx''
       ''_products_v_version_gallery'' [''image_id''],
     AddColumn ''products'' (plain_column ''title'' TextType),
     AddColumn ''products'' (plain_column ''slug'' TextType),
     AddColumn ''products'' (plain_column ''sku'' TextType),
     AddColumn ''products'' (plain_column ''copy'' TextType),
     CreateIndex True ''products_slug_idx'' ''products'' [''slug''],
     AddColumn ''_products_v'' (plain_column ''version_title'' TextType),
     AddColumn ''_products_v'' (plain_column ''version_slug'' TextType),
     AddColumn ''_products_v'' (plain_column ''version_sku'' TextType),
     AddColumn ''_products_v'' (plain_column ''version_copy'' TextType),
     CreateIndex False ''_products_v_version_version_slug_idx'' ''_products_v''
       [''version_slug'']]"

definition down :: "statement list" where
  "down =
    [DropTable ''products_gallery'',
     DropTable ''_products_v_version_gallery'',
     DropIndex ''products_slug_idx'',
     DropColumn ''products'' ''title'',
     DropColumn ''products'' ''slug'',
     DropColumn ''products'' ''sku'',
     DropColumn ''products'' ''copy'',
     DropIndex ''_products_v_version_version_slug_idx'',
     DropColumn ''_products_v'' ''version_title'',
     DropColumn ''_products_v'' ''version_slug'',
     DropColumn ''_products_v'' ''version_sku'',
     DropColumn ''_products_v'' ''version_copy'']"

text \<open>
  The schemas SQLite can hold: names are unique, a table has a column, the columns of a
  table have distinct names, a foreign key of a table constrains one of its columns, and
  an index is on columns of an existing table.
\<close>

definition wf_table :: "table_def \<Rightarrow> bool" where
  "wf_table d \<longleftrightarrow>
     columns d \<noteq> [] \<and> distinct (column_names d)
     \<and> list_all (\<lambda>fk. fk_column fk \<in> set (column_names d)) (foreign_keys d)"

definition wf_index :: "schema \<Rightarrow> index_def \<Rightarrow> bool" where
  "wf_index s i \<longleftrightarrow>
     (case map_of (tables s) (idx_table i) of
        None \<Rightarrow> False
      | Some d \<Rightarrow> list_all (\<lambda>c. c \<in> set (column_names d)) (idx_columns i))"

definition wf_schema :: "schema \<Rightarrow> bool" where
  "wf_schema s \<longleftrightarrow>
     distinct (map fst (tables s) @ map fst (indexes s))
     \<and> list_all (\<lambda>(n, d). wf_table d) (tables s)
     \<and> list_all (\<lambda>(n, i). wf_index s i) (indexes s)"

text \<open>A schema before the migration, for the concrete examples.\<close>

definition schema_before :: schema where
  "schema_before =
     \<lparr>tables =
        [(''media'', \<lparr>columns = [primary_key_column ''id'' IntegerType,
                                plain_column ''url'' TextType],
                     foreign_keys = []\<rparr>),
         (''products'', \<lparr>columns = [primary_key_column ''id'' IntegerType,
                                   plain_column ''_status'' TextType],
                        foreign_keys = []\<rparr>),
         (''_products_v'', \<lparr>columns = [primary_key_column ''id'' IntegerType,
                                      plain_column ''parent_id'' IntegerType,
                                      plain_column ''version__status'' TextType],
                           foreign_keys =
                             [references ''parent_id'' ''products'' ''id'' SetNull]\<rparr>)],
      indexes =
        [(''products__status_idx'',
          \<lparr>idx_table = ''products'', idx_columns = [''_status''], idx_unique = False\<rparr>),
         (''_products_v_parent_idx'',
          \<lparr>idx_table = ''_products_v'', idx_columns = [''parent_id''], idx_unique = False\<rparr>)]\<rparr>"


section \<open>Properties of the access-control predicates\<close>

text \<open>
  Claim C2. For every user context, \<open>adminOnly\<close> returns true if and only if the user
  exists and the string \<^verbatim>\<open>'admin'\<close> is an element of the user's roles list; for an anonymous
  caller, for a user without a roles list and for a roles list without \<^verbatim>\<open>'admin'\<close> it
  returns false.
\<close>

theorem adminOnly_iff_admin_role:
  "adminOnly u \<longleftrightarrow> (\<exists>usr rs. u = Some usr \<and> roles usr = Some rs \<and> ''admin'' \<in> set rs)"
  by (auto simp: adminOnly_def roles_include_def split: option.splits)

theorem adminOnly_iff_admin_role_witness:
  "adminOnly (Some \<lparr>roles = Some [''customer'', ''admin''], user_id = 7\<rparr>)
   \<and> \<not> adminOnly (Some \<lparr>roles = Some [''customer''], user_id = 8\<rparr>)
   \<and> \<not> adminOnly (Some \<lparr>roles = None, user_id = 9\<rparr>)
   \<and> \<not> adminOnly (None :: user option)"
  using adminOnly_iff_admin_role [of "Some \<lparr>roles = Some [''customer'', ''admin''], user_id = 7\<rparr>"]
    adminOnly_iff_admin_role [of "Some \<lparr>roles = Some [''customer''], user_id = 8\<rparr>"]
    adminOnly_iff_admin_role [of "Some \<lparr>roles = None, user_id = 9\<rparr>"]
    adminOnly_iff_admin_role [of "None :: user option"]
  by simp

text \<open>
  The branch of \<open>adminOrCustomerOwner\<close> for a user document whose id is falsy: the test
  \<^verbatim>\<open>if (user?.id)\<close> fails and the function returns false. The database numbers its rows
  from 1, so no stored user has the id 0.
\<close>

lemma adminOrCustomerOwner_falsy_id:
  "\<not> adminOnly (Some usr) \<Longrightarrow> user_id usr = 0 \<Longrightarrow>
     adminOrCustomerOwner (Some usr) = AccessBool False"
  by (auto simp: adminOrCustomerOwner_def adminOnly_def roles_include_def split: option.splits)

text \<open>
  Claim C3. \<open>adminOrCustomerOwner\<close> returns true when the user's roles contain
  \<^verbatim>\<open>'admin'\<close>; it returns the filter \<^verbatim>\<open>{ customer: { equals: user.id } }\<close> when the user is
  authenticated, that is, has an id (\<^verbatim>\<open>user?.id\<close> holds: the id of a stored user, which is
  not 0), and is not an admin; and it returns false when there is no authenticated user.
\<close>

theorem adminOrCustomerOwner_cases:
  fixes usr :: "'a user_scheme"
  shows "(roles usr = Some rs \<and> ''admin'' \<in> set rs \<longrightarrow>
      adminOrCustomerOwner (Some usr) = AccessBool True)
   \<and> (\<not> adminOnly (Some usr) \<and> user_id usr \<noteq> 0 \<longrightarrow>
      adminOrCustomerOwner (Some usr) = WhereEquals ''customer'' (IdValue (user_id usr)))
   \<and> adminOrCustomerOwner (None :: 'a user_scheme option) = AccessBool False"
  by (auto simp: adminOrCustomerOwner_def adminOnly_def roles_include_def split: option.splits)

theorem adminOrCustomerOwner_cases_witness:
  "adminOrCustomerOwner (Some \<lparr>roles = Some [''customer'', ''admin''], user_id = 7\<rparr>)
       = AccessBool True
   \<and> adminOrCustomerOwner (Some \<lparr>roles = Some [''customer''], user_id = 8\<rparr>)
       = WhereEquals ''customer'' (IdValue 8)
   \<and> adminOrCustomerOwner (Some \<lparr>roles = None, user_id = 9\<rparr>)
       = WhereEquals ''customer'' (IdValue 9)
   \<and> adminOrCustomerOwner (None :: user option) = AccessBool False"
  using adminOrCustomerOwner_cases [of "\<lparr>roles = Some [''customer'', ''admin''], user_id = 7\<rparr>"
      "[''customer'', ''admin'']"]
    adminOrCustomerOwner_cases [of "\<lparr>roles = Some [''customer''], user_id = 8\<rparr>"]
    adminOrCustomerOwner_cases [of "\<lparr>roles = None, user_id = 9\<rparr>"]
  by (simp add: adminOnly_def roles_include_def)

text \<open>
  Claim C5. \<open>adminOrPublishedStatus\<close> returns true when the user's roles contain
  \<^verbatim>\<open>'admin'\<close>, and otherwise, for a user who is not an admin and for an anonymous caller
  alike, the filter \<^verbatim>\<open>{ _status: { equals: 'published' } }\<close>.
\<close>

theorem adminOrPublishedStatus_cases:
  fixes usr :: "'a user_scheme"
  shows "(roles usr = Some rs \<and> ''admin'' \<in> set rs \<longrightarrow>
      adminOrPublishedStatus (Some usr) = AccessBool True)
   \<and> (\<not> adminOnly (Some usr) \<longrightarrow>
      adminOrPublishedStatus (Some usr) = WhereEquals ''_status'' (StringValue ''published''))
   \<and> adminOrPublishedStatus (None :: 'a user_scheme option)
       = WhereEquals ''_status'' (StringValue ''published'')"
  by (auto simp: adminOrPublishedStatus_def adminOnly_def roles_include_def split: option.splits)

theorem adminOrPublishedStatus_cases_witness:
  "adminOrPublishedStatus (Some \<lparr>roles = Some [''admin''], user_id = 1\<rparr>) = AccessBool True
   \<and> adminOrPublishedStatus (Some \<lparr>roles = Some [''customer''], user_id = 2\<rparr>)
       = WhereEquals ''_status'' (StringValue ''published'')
   \<and> adminOrPublishedStatus (None :: user option)
       = WhereEquals ''_status'' (StringValue ''published'')"
  using adminOrPublishedStatus_cases [of "\<lparr>roles = Some [''admin''], user_id = 1\<rparr>" "[''admin'']"]
    adminOrPublishedStatus_cases [of "\<lparr>roles = Some [''customer''], user_id = 2\<rparr>"]
  by (simp add: adminOnly_def roles_include_def)

text \<open>
  Claim C10. \<open>customerOnlyFieldAccess\<close> returns true if and only if the user exists and
  the user's roles contain \<^verbatim>\<open>'customer'\<close>; a user whose roles are exactly \<^verbatim>\<open>['admin']\<close> is
  denied.
\<close>

theorem customerOnlyFieldAccess_iff_customer_role:
  "customerOnlyFieldAccess u \<longleftrightarrow>
     (\<exists>usr rs. u = Some usr \<and> roles usr = Some rs \<and> ''customer'' \<in> set rs)"
  by (auto simp: customerOnlyFieldAccess_def roles_include_def split: option.splits)

theorem customerOnlyFieldAccess_iff_customer_role_witness:
  "\<not> customerOnlyFieldAccess (Some \<lparr>roles = Some [''admin''], user_id = 1\<rparr>)
   \<and> customerOnlyFieldAccess (Some \<lparr>roles = Some [''customer''], user_id = 2\<rparr>)
   \<and> \<not> customerOnlyFieldAccess (None :: user option)"
  using customerOnlyFieldAccess_iff_customer_role [of "Some \<lparr>roles = Some [''admin''], user_id = 1\<rparr>"]
    customerOnlyFieldAccess_iff_customer_role [of "Some \<lparr>roles = Some [''customer''], user_id = 2\<rparr>"]
    customerOnlyFieldAccess_iff_customer_role [of "None :: user option"]
  by simp

section \<open>Properties of the Users collection\<close>

text \<open>
  Claim C4. On a create with no stored user, the \<^verbatim>\<open>beforeChange\<close> hook sets the roles of
  the new user to exactly \<^verbatim>\<open>['admin']\<close>, whatever roles the data carried, and changes
  nothing else; with a stored user it returns the data unchanged, so that a user created
  without roles keeps the default \<^verbatim>\<open>['customer']\<close> of the field.
\<close>

theorem users_beforeChange_first_user_admin:
  "(totalDocs existing = 0 \<longrightarrow>
      roles (users_beforeChange ''create'' existing data) = Some [''admin'']
      \<and> users_beforeChange ''create'' existing data = data\<lparr>roles := Some [''admin'']\<rparr>)
   \<and> (totalDocs existing \<noteq> 0 \<longrightarrow> users_beforeChange ''create'' existing data = data)
   \<and> (totalDocs existing \<noteq> 0 \<and> roles data = None \<longrightarrow>
      roles (users_create_data existing data) = Some [''customer''])"
  by (simp add: users_beforeChange_def users_create_data_def apply_roles_default_def
      roles_defaultValue_def)

theorem users_beforeChange_first_user_admin_witness:
  "users_create_data ([] :: user list) \<lparr>roles = None\<rparr> = \<lparr>roles = Some [''admin'']\<rparr>
   \<and> users_create_data ([] :: user list) \<lparr>roles = Some [''customer'']\<rparr>
       = \<lparr>roles = Some [''admin'']\<rparr>
   \<and> users_create_data [\<lparr>roles = Some [''admin''], user_id = 1\<rparr>] \<lparr>roles = None\<rparr>
       = \<lparr>roles = Some [''customer'']\<rparr>
   \<and> users_beforeChange ''create'' [\<lparr>roles = Some [''admin''], user_id = 1\<rparr>]
         \<lparr>roles = Some [''customer'', ''admin'']\<rparr>
       = \<lparr>roles = Some [''customer'', ''admin'']\<rparr>"
  using users_beforeChange_first_user_admin [of "[] :: user list" "\<lparr>roles = Some [''customer'']\<rparr>"]
    users_beforeChange_first_user_admin [of "[\<lparr>roles = Some [''admin''], user_id = 1\<rparr>]"
      "\<lparr>roles = Some [''customer'', ''admin'']\<rparr>"]
    users_beforeChange_first_user_admin [of "[\<lparr>roles = Some [''admin''], user_id = 1\<rparr>]"
      "\<lparr>roles = None\<rparr>"]
  by (simp add: users_create_data_def apply_roles_default_def roles_defaultValue_def totalDocs_def)

section \<open>Properties of the slug derivation\<close>

lemma hyphen_not_a_z0_9: "\<not> is_a_z0_9 hyphen"
  by (simp add: is_a_z0_9_def hyphen_def)

lemma replace_non_alnum_runs_chars:
  "c \<in> set (replace_non_alnum_runs s) \<Longrightarrow> is_a_z0_9 c \<or> c = hyphen"
proof (induction s arbitrary: c rule: replace_non_alnum_runs.induct)
  case 1
  then show ?case by simp
next
  case (2 x xs)
  then show ?case by (auto split: if_splits)
qed

lemma replace_non_alnum_runs_head:
  "replace_non_alnum_runs (dropWhile (\<lambda>x. \<not> is_a_z0_9 x) cs) = y # ys \<Longrightarrow> is_a_z0_9 y"
proof (cases "dropWhile (\<lambda>x. \<not> is_a_z0_9 x) cs")
  case Nil
  then show "replace_non_alnum_runs (dropWhile (\<lambda>x. \<not> is_a_z0_9 x) cs) = y # ys \<Longrightarrow> is_a_z0_9 y" by simp
next
  case (Cons a as)
  then have "is_a_z0_9 a" using hd_dropWhile [of "\<lambda>x. \<not> is_a_z0_9 x" cs] by auto
  then show "replace_non_alnum_runs (dropWhile (\<lambda>x. \<not> is_a_z0_9 x) cs) = y # ys \<Longrightarrow> is_a_z0_9 y"
    using Cons by simp
qed

lemma no_adjacent_hyphens_alnum_Cons:
  "c \<noteq> hyphen \<Longrightarrow> no_adjacent_hyphens cs \<Longrightarrow> no_adjacent_hyphens (c # cs)"
  by (cases cs) simp_all

lemma no_adjacent_hyphens_hyphen_Cons:
  "(\<And>y ys. cs = y # ys \<Longrightarrow> y \<noteq> hyphen) \<Longrightarrow> no_adjacent_hyphens cs
     \<Longrightarrow> no_adjacent_hyphens (c # cs)"
  by (cases cs) simp_all

lemma replace_non_alnum_runs_no_adjacent:
  "no_adjacent_hyphens (replace_non_alnum_runs s)"
proof (induction s rule: replace_non_alnum_runs.induct)
  case 1
  then show ?case by simp
next
  case (2 c cs)
  show ?case
  proof (cases "is_a_z0_9 c")
    case True
    then have "c \<noteq> hyphen" using hyphen_not_a_z0_9 by auto
    moreover have "no_adjacent_hyphens (replace_non_alnum_runs cs)"
      using True 2 by blast
    ultimately have "no_adjacent_hyphens (c # replace_non_alnum_runs cs)"
      by (rule no_adjacent_hyphens_alnum_Cons)
    with True show ?thesis by simp
  next
    case False
    let ?r = "replace_non_alnum_runs (dropWhile (\<lambda>x. \<not> is_a_z0_9 x) cs)"
    have "\<And>y ys. ?r = y # ys \<Longrightarrow> y \<noteq> hyphen"
      using hyphen_not_a_z0_9 replace_non_alnum_runs_head [of cs] by blast
    moreover have "no_adjacent_hyphens ?r"
      using False 2 by blast
    ultimately have "no_adjacent_hyphens (hyphen # ?r)"
      by (rule no_adjacent_hyphens_hyphen_Cons)
    with False show ?thesis by simp
  qed
qed

lemma strip_from_False:
  "strip_edge_hyphens_from False s = (if s \<noteq> [] \<and> last s = hyphen then butlast s else s)"
  by (induction s) auto

lemma strip_edge_hyphens_Cons:
  "strip_edge_hyphens (c # cs) =
     (if c = hyphen then strip_edge_hyphens_from False cs
      else strip_edge_hyphens_from False (c # cs))"
  by (simp add: strip_edge_hyphens_def)

lemma no_adjacent_hyphens_tl: "no_adjacent_hyphens (c # cs) \<Longrightarrow> no_adjacent_hyphens cs"
  by (cases cs) simp_all

lemma no_adjacent_hyphens_butlast: "no_adjacent_hyphens s \<Longrightarrow> no_adjacent_hyphens (butlast s)"
  by (induction s rule: no_adjacent_hyphens.induct) (auto split: if_splits)

lemma no_adjacent_hyphens_last_butlast:
  "no_adjacent_hyphens s \<Longrightarrow> s \<noteq> [] \<Longrightarrow> last s = hyphen \<Longrightarrow> butlast s \<noteq> []
     \<Longrightarrow> last (butlast s) \<noteq> hyphen"
  by (induction s rule: no_adjacent_hyphens.induct) (auto split: if_splits)

lemma ends_with_hyphen_last: "ends_with_hyphen s \<longleftrightarrow> s \<noteq> [] \<and> last s = hyphen"
  by (cases s rule: rev_cases) (simp_all add: ends_with_hyphen_def)

lemma strip_from_False_props:
  assumes "no_adjacent_hyphens s"
  shows "no_adjacent_hyphens (strip_edge_hyphens_from False s)"
    and "\<not> ends_with_hyphen (strip_edge_hyphens_from False s)"
    and "set (strip_edge_hyphens_from False s) \<subseteq> set s"
    and "\<not> starts_with_hyphen s \<Longrightarrow> \<not> starts_with_hyphen (strip_edge_hyphens_from False s)"
proof -
  show "no_adjacent_hyphens (strip_edge_hyphens_from False s)"
    using assms by (simp add: strip_from_False no_adjacent_hyphens_butlast)
  show "\<not> ends_with_hyphen (strip_edge_hyphens_from False s)"
    using assms no_adjacent_hyphens_last_butlast [of s]
    by (auto simp: strip_from_False ends_with_hyphen_last)
  show "set (strip_edge_hyphens_from False s) \<subseteq> set s"
    by (auto simp: strip_from_False dest: in_set_butlastD)
  show "\<not> starts_with_hyphen s \<Longrightarrow> \<not> starts_with_hyphen (strip_edge_hyphens_from False s)"
    by (cases s) (auto simp: strip_from_False starts_with_hyphen_def split: list.splits if_splits)
qed

lemma strip_edge_hyphens_props:
  assumes "no_adjacent_hyphens s"
  shows "no_adjacent_hyphens (strip_edge_hyphens s)"
    and "\<not> ends_with_hyphen (strip_edge_hyphens s)"
    and "\<not> starts_with_hyphen (strip_edge_hyphens s)"
    and "set (strip_edge_hyphens s) \<subseteq> set s"
proof -
  show "no_adjacent_hyphens (strip_edge_hyphens s)"
  proof (cases s)
    case Nil
    then show ?thesis by (simp add: strip_edge_hyphens_def)
  next
    case (Cons c cs)
    with assms strip_from_False_props(1) [of cs] strip_from_False_props(1) [of s]
    show ?thesis
      by (auto simp: strip_edge_hyphens_Cons dest: no_adjacent_hyphens_tl)
  qed
  show "\<not> ends_with_hyphen (strip_edge_hyphens s)"
  proof (cases s)
    case Nil
    then show ?thesis by (simp add: strip_edge_hyphens_def ends_with_hyphen_def)
  next
    case (Cons c cs)
    with assms strip_from_False_props(2) [of cs] strip_from_False_props(2) [of s]
    show ?thesis
      by (auto simp: strip_edge_hyphens_Cons dest: no_adjacent_hyphens_tl)
  qed
  show "\<not> starts_with_hyphen (strip_edge_hyphens s)"
  proof (cases s)
    case Nil
    then show ?thesis by (simp add: strip_edge_hyphens_def starts_with_hyphen_def)
  next
    case (Cons c cs)
    show ?thesis
    proof (cases "c = hyphen")
      case True
      with Cons assms have "\<not> starts_with_hyphen cs" "no_adjacent_hyphens cs"
        by (cases cs; simp add: starts_with_hyphen_def)+
      with True Cons strip_from_False_props(4) [of cs] show ?thesis
        by (simp add: strip_edge_hyphens_Cons)
    next
      case False
      with Cons have "\<not> starts_with_hyphen s" by (simp add: starts_with_hyphen_def)
      with False Cons assms strip_from_False_props(4) [of s] show ?thesis
        by (simp add: strip_edge_hyphens_Cons)
    qed
  qed
  show "set (strip_edge_hyphens s) \<subseteq> set s"
  proof (cases s)
    case Nil
    then show ?thesis by (simp add: strip_edge_hyphens_def)
  next
    case (Cons c cs)
    with assms strip_from_False_props(3) [of cs] strip_from_False_props(3) [of s]
    show ?thesis
      by (auto simp: strip_edge_hyphens_Cons dest: no_adjacent_hyphens_tl)
  qed
qed

lemma replace_non_alnum_runs_no_class:
  "\<forall>c \<in> set s. \<not> is_a_z0_9 c \<Longrightarrow> replace_non_alnum_runs s = (if s = [] then [] else [hyphen])"
proof (cases s)
  case Nil
  then show ?thesis by simp
next
  case (Cons c cs)
  assume a: "\<forall>c \<in> set s. \<not> is_a_z0_9 c"
  with Cons have dw: "dropWhile (\<lambda>x. \<not> is_a_z0_9 x) cs = []" by simp
  from a Cons show ?thesis by (simp add: dw)
qed

lemma derive_slug_no_class:
  "\<forall>c \<in> set (toLowerCase t). \<not> is_a_z0_9 c \<Longrightarrow> derive_slug toLowerCase t = []"
  by (simp add: derive_slug_def replace_non_alnum_runs_no_class strip_edge_hyphens_def)

lemma derive_slug_props:
  "(\<forall>c \<in> set (derive_slug toLowerCase t). is_a_z0_9 c \<or> c = hyphen)
   \<and> no_adjacent_hyphens (derive_slug toLowerCase t)
   \<and> \<not> starts_with_hyphen (derive_slug toLowerCase t)
   \<and> \<not> ends_with_hyphen (derive_slug toLowerCase t)"
  using strip_edge_hyphens_props [OF replace_non_alnum_runs_no_adjacent, of "toLowerCase t"]
    replace_non_alnum_runs_chars [of _ "toLowerCase t"]
  unfolding derive_slug_def by blast

text \<open>
  Claim C1. For every title and every lowercasing function, the derived slug consists of
  code units of \<^verbatim>\<open>[a-z0-9]\<close> and hyphens only, has no two adjacent hyphens, and neither
  starts nor ends with a hyphen; and when the hook derives a slug (a create or an update,
  a non-empty title, no slug or an empty one), the slug it stores is this derived slug.
\<close>

theorem derive_slug_shape:
  "(\<forall>c \<in> set (derive_slug toLowerCase t). is_a_z0_9 c \<or> c = hyphen)
   \<and> no_adjacent_hyphens (derive_slug toLowerCase t)
   \<and> \<not> starts_with_hyphen (derive_slug toLowerCase t)
   \<and> \<not> ends_with_hyphen (derive_slug toLowerCase t)
   \<and> ((operation = ''create'' \<or> operation = ''update'') \<and> title d = Some t \<and> t \<noteq> []
        \<and> \<not> truthy (slug d) \<longrightarrow>
      products_beforeValidate toLowerCase operation (Some d)
        = Some (d\<lparr>slug := Some (derive_slug toLowerCase t)\<rparr>))"
  using derive_slug_props [of toLowerCase t]
  by (simp add: products_beforeValidate_def)

theorem derive_slug_shape_witness:
  "products_beforeValidate toLowerCase_ascii ''create''
     (Some \<lparr>title = Some (map of_char ''  Hello,   World -- 2nd Ed.!''), slug = None\<rparr>)
     = Some \<lparr>title = Some (map of_char ''  Hello,   World -- 2nd Ed.!''),
             slug = Some (map of_char ''hello-world-2nd-ed'')\<rparr>
   \<and> list_all (\<lambda>c. is_a_z0_9 c \<or> c = hyphen) (map of_char ''hello-world-2nd-ed'')
   \<and> no_adjacent_hyphens (map of_char ''hello-world-2nd-ed'')
   \<and> \<not> starts_with_hyphen (map of_char ''hello-world-2nd-ed'')
   \<and> \<not> ends_with_hyphen (map of_char ''hello-world-2nd-ed'')"
proof -
  have e: "derive_slug toLowerCase_ascii (map of_char ''  Hello,   World -- 2nd Ed.!'')
     = map of_char ''hello-world-2nd-ed''"
    by (simp add: derive_slug_def toLowerCase_ascii_def strip_edge_hyphens_def is_a_z0_9_def
        hyphen_def)
  have t: "\<not> truthy (slug \<lparr>title = Some (map of_char ''  Hello,   World -- 2nd Ed.!''),
      slug = None\<rparr>)"
    by (simp add: truthy_def)
  from derive_slug_shape [of toLowerCase_ascii "map of_char ''  Hello,   World -- 2nd Ed.!''"
      "''create''" "\<lparr>title = Some (map of_char ''  Hello,   World -- 2nd Ed.!''), slug = None\<rparr>"]
  show ?thesis
    unfolding e list_all_iff using t
    by (simp add: is_a_z0_9_def hyphen_def starts_with_hyphen_def ends_with_hyphen_def)
qed

text \<open>
  Claim C7. Running the hook on its own output, with the same lowercasing function and
  operation, returns that output: the title is the same, and the slug keeps the value the
  first run gave it.
\<close>

theorem products_beforeValidate_idempotent:
  "products_beforeValidate toLowerCase operation
     (products_beforeValidate toLowerCase operation data)
   = products_beforeValidate toLowerCase operation data"
  by (simp add: products_beforeValidate_def truthy_def split: option.splits)

theorem products_beforeValidate_idempotent_witness:
  "products_beforeValidate toLowerCase_ascii ''create''
     (Some \<lparr>title = Some (map of_char ''Red Shirt''), slug = None\<rparr>)
     = Some \<lparr>title = Some (map of_char ''Red Shirt''), slug = Some (map of_char ''red-shirt'')\<rparr>
   \<and> products_beforeValidate toLowerCase_ascii ''create''
       (Some \<lparr>title = Some (map of_char ''Red Shirt''), slug = Some (map of_char ''red-shirt'')\<rparr>)
     = Some \<lparr>title = Some (map of_char ''Red Shirt''), slug = Some (map of_char ''red-shirt'')\<rparr>"
proof -
  have "products_beforeValidate toLowerCase_ascii ''create''
     (Some \<lparr>title = Some (map of_char ''Red Shirt''), slug = None\<rparr>)
     = Some \<lparr>title = Some (map of_char ''Red Shirt''), slug = Some (map of_char ''red-shirt'')\<rparr>"
    by (simp add: products_beforeValidate_def truthy_def derive_slug_def toLowerCase_ascii_def
        strip_edge_hyphens_def is_a_z0_9_def hyphen_def)
  then show ?thesis
    using products_beforeValidate_idempotent [of toLowerCase_ascii "''create''"
        "Some \<lparr>title = Some (map of_char ''Red Shirt''), slug = None\<rparr>"]
    by simp
qed

text \<open>
  Claim C8, as amended. When the data carries a non-empty slug, the hook returns the data
  unchanged; when the data carries no title or an empty title, the hook returns the data
  unchanged; undefined data is returned as it is.
\<close>

theorem products_beforeValidate_frame:
  fixes d :: "'a product_data_scheme"
  shows "(slug d = Some s \<and> s \<noteq> [] \<longrightarrow>
      products_beforeValidate toLowerCase operation (Some d) = Some d)
   \<and> (title d = None \<or> title d = Some [] \<longrightarrow>
      products_beforeValidate toLowerCase operation (Some d) = Some d)
   \<and> products_beforeValidate toLowerCase operation (None :: 'a product_data_scheme option)
       = None"
  by (auto simp: products_beforeValidate_def truthy_def split: option.splits)

theorem products_beforeValidate_frame_witness:
  "products_beforeValidate toLowerCase_ascii ''update''
     (Some \<lparr>title = Some (map of_char ''Red Shirt''), slug = Some (map of_char ''Custom_Slug'')\<rparr>)
     = Some \<lparr>title = Some (map of_char ''Red Shirt''), slug = Some (map of_char ''Custom_Slug'')\<rparr>
   \<and> products_beforeValidate toLowerCase_ascii ''create'' (Some \<lparr>title = None, slug = None\<rparr>)
     = Some \<lparr>title = None, slug = None\<rparr>"
  using products_beforeValidate_frame [of
      "\<lparr>title = Some (map of_char ''Red Shirt''), slug = Some (map of_char ''Custom_Slug'')\<rparr>"
      "map of_char ''Custom_Slug''" toLowerCase_ascii "''update''"]
    products_beforeValidate_frame [of "\<lparr>title = None, slug = None\<rparr>" "[]" toLowerCase_ascii
      "''create''"]
  by simp

text \<open>
  Claim C8 as it is stated covers every input in which a slug was supplied. An input that
  supplies the empty string as its slug, next to the title \<^verbatim>\<open>Hi\<close>, does not come back
  unchanged: \<^verbatim>\<open>!data?.slug\<close> holds for the empty string, and the hook replaces the slug by
  \<^verbatim>\<open>hi\<close>.
\<close>

theorem products_beforeValidate_empty_slug_counterexample:
  "products_beforeValidate toLowerCase_ascii ''create''
     (Some \<lparr>title = Some (map of_char ''Hi''), slug = Some []\<rparr>)
   = Some \<lparr>title = Some (map of_char ''Hi''), slug = Some (map of_char ''hi'')\<rparr>
   \<and> products_beforeValidate toLowerCase_ascii ''create''
     (Some \<lparr>title = Some (map of_char ''Hi''), slug = Some []\<rparr>)
   \<noteq> Some \<lparr>title = Some (map of_char ''Hi''), slug = Some []\<rparr>"
  by (simp add: products_beforeValidate_def truthy_def derive_slug_def toLowerCase_ascii_def
        strip_edge_hyphens_def is_a_z0_9_def hyphen_def)

text \<open>
  Claim C9. On a create or an update whose data has a non-empty title and no slug of its
  own (none, or the empty string), when the lowercased title has no code unit in
  \<^verbatim>\<open>[a-z0-9]\<close>, the hook stores the empty string as the slug: the field is present and
  empty, not missing.
\<close>

theorem products_beforeValidate_empty_derived_slug:
  "(operation = ''create'' \<or> operation = ''update'') \<and> title d = Some t \<and> t \<noteq> []
     \<and> (\<forall>c \<in> set (toLowerCase t). \<not> is_a_z0_9 c) \<and> \<not> truthy (slug d)
   \<longrightarrow> products_beforeValidate toLowerCase operation (Some d) = Some (d\<lparr>slug := Some []\<rparr>)"
  by (auto simp: products_beforeValidate_def derive_slug_no_class)

theorem products_beforeValidate_empty_derived_slug_witness:
  "products_beforeValidate toLowerCase_ascii ''create''
     (Some \<lparr>title = Some (map of_char ''?! ...''), slug = None\<rparr>)
     = Some \<lparr>title = Some (map of_char ''?! ...''), slug = Some []\<rparr>"
  using products_beforeValidate_empty_derived_slug [of "''create''"
      "\<lparr>title = Some (map of_char ''?! ...''), slug = None\<rparr>" "map of_char ''?! ...''"
      toLowerCase_ascii]
  by (simp add: truthy_def toLowerCase_ascii_def is_a_z0_9_def)


section \<open>Properties of migration 20251202_023627\<close>

lemma map_of_append_case:
  "map_of (xs @ ys) k = (case map_of xs k of Some x \<Rightarrow> Some x | None \<Rightarrow> map_of ys k)"
  by (simp add: map_add_def split: option.splits)

lemma map_of_alter_table:
  "map_of (alter_table t d ts) k =
     (if k = t then (case map_of ts t of None \<Rightarrow> None | Some d0 \<Rightarrow> Some d) else map_of ts k)"
  by (induction ts) (auto simp: alter_table_def)

lemma alter_table_append:
  "alter_table t d (xs @ ys) = alter_table t d xs @ alter_table t d ys"
  by (simp add: alter_table_def)

lemma alter_table_twice:
  "alter_table t d2 (alter_table t d1 ts) = alter_table t d2 ts"
  by (induction ts) (auto simp: alter_table_def)

lemma alter_table_over:
  "alter_table t d2 (alter_table q e (alter_table t d1 ts)) = alter_table t d2 (alter_table q e ts)"
  by (induction ts) (auto simp: alter_table_def)

lemma alter_table_same:
  "distinct (map fst ts) \<Longrightarrow> map_of ts t = Some d \<Longrightarrow> alter_table t d ts = ts"
proof (induction ts)
  case Nil
  then show ?case by (simp add: alter_table_def)
next
  case (Cons x xs)
  obtain n d0 where x: "x = (n, d0)" by (cases x)
  show ?case
  proof (cases "n = t")
    case True
    with Cons.prems x have "d0 = d" and "t \<notin> fst ` set xs" by auto
    then have "alter_table t d xs = xs"
      unfolding alter_table_def by (intro map_idI) force
    with True x \<open>d0 = d\<close> show ?thesis by (simp add: alter_table_def)
  next
    case False
    with Cons x show ?thesis by (simp add: alter_table_def)
  qed
qed

lemma filter_name_absent:
  "map_of xs t = None \<Longrightarrow> filter (\<lambda>(n, v). n \<noteq> t) xs = xs"
  by (induction xs) (auto split: if_splits)

lemma filter_name_alter_table:
  "filter (\<lambda>(n, v). n \<noteq> t) (alter_table q d ts) = alter_table q d (filter (\<lambda>(n, v). n \<noteq> t) ts)"
  by (induction ts) (auto simp: alter_table_def split: if_splits)

lemma find_append_absent:
  "c \<notin> col_name ` set xs \<Longrightarrow>
     find (\<lambda>x. col_name x = c) (xs @ ys) = find (\<lambda>x. col_name x = c) ys"
  by (induction xs) auto

lemma filter_columns_absent:
  "c \<notin> col_name ` set xs \<Longrightarrow> filter (\<lambda>x. col_name x \<noteq> c) xs = xs"
  by (induction xs) auto

lemma run_append:
  "run (xs @ ys) s = (case run xs s of Inl e \<Rightarrow> Inl e | Inr s1 \<Rightarrow> run ys s1)"
  by (induction xs arbitrary: s) (auto split: sum.splits)

lemma run_Cons_Inr:
  "run (st # sts) s = Inr s' \<longleftrightarrow> (\<exists>s1. exec st s = Inr s1 \<and> run sts s1 = Inr s')"
  by (cases "exec st s") auto

lemma exec_CreateTable_Inr:
  "exec (CreateTable n cols fks) s = Inr s1 \<longleftrightarrow>
     \<not> name_in_use s n \<and> cols \<noteq> [] \<and> distinct (map col_name cols)
     \<and> list_all (\<lambda>fk. fk_column fk \<in> set (map col_name cols)) fks
     \<and> s1 = s\<lparr>tables := tables s @ [(n, \<lparr>columns = cols, foreign_keys = fks\<rparr>)]\<rparr>"
  by auto

lemma exec_CreateIndex_Inr:
  "exec (CreateIndex uniq n t cols) s = Inr s1 \<longleftrightarrow>
     \<not> name_in_use s n
     \<and> (\<exists>d. map_of (tables s) t = Some d \<and> list_all (\<lambda>c. c \<in> set (column_names d)) cols)
     \<and> s1 = s\<lparr>indexes := indexes s @
                [(n, \<lparr>idx_table = t, idx_columns = cols, idx_unique = uniq\<rparr>)]\<rparr>"
  by (auto split: option.splits)

lemma exec_AddColumn_Inr:
  "exec (AddColumn t c) s = Inr s1 \<longleftrightarrow>
     (\<exists>d. map_of (tables s) t = Some d \<and> col_name c \<notin> set (column_names d)
        \<and> \<not> col_primary_key c \<and> \<not> col_not_null c
        \<and> s1 = s\<lparr>tables := alter_table t (d\<lparr>columns := columns d @ [c]\<rparr>) (tables s)\<rparr>)"
  by (auto split: option.splits)

text \<open>CREATE TABLE with its three indexes.\<close>

lemma create_block:
  assumes "run [CreateTable n cols fks, CreateIndex u1 i1 n k1, CreateIndex u2 i2 n k2,
                CreateIndex u3 i3 n k3] s = Inr s1"
  shows "map_of (tables s) n = None \<and> map_of (indexes s) n = None
     \<and> map_of (indexes s) i1 = None \<and> map_of (indexes s) i2 = None
     \<and> map_of (indexes s) i3 = None
     \<and> map_of (tables s) i1 = None \<and> map_of (tables s) i2 = None
     \<and> map_of (tables s) i3 = None
     \<and> s1 = s\<lparr>tables := tables s @ [(n, \<lparr>columns = cols, foreign_keys = fks\<rparr>)],
              indexes := indexes s @
                [(i1, \<lparr>idx_table = n, idx_columns = k1, idx_unique = u1\<rparr>),
                 (i2, \<lparr>idx_table = n, idx_columns = k2, idx_unique = u2\<rparr>),
                 (i3, \<lparr>idx_table = n, idx_columns = k3, idx_unique = u3\<rparr>)]\<rparr>"
  using assms
  by (auto simp: run_Cons_Inr exec_CreateTable_Inr exec_CreateIndex_Inr name_in_use_def
      map_of_append_case simp del: exec.simps run.simps(2) map_of_append split: option.splits if_splits)

text \<open>Four ALTER TABLE ADD on one table and an index on it.\<close>

lemma alter_block:
  assumes "run [AddColumn t c1, AddColumn t c2, AddColumn t c3, AddColumn t c4,
                CreateIndex u i t k] s = Inr s1"
  shows "\<exists>d. map_of (tables s) t = Some d
     \<and> col_name c1 \<notin> set (column_names d) \<and> col_name c2 \<notin> set (column_names d)
     \<and> col_name c3 \<notin> set (column_names d) \<and> col_name c4 \<notin> set (column_names d)
     \<and> distinct [col_name c1, col_name c2, col_name c3, col_name c4]
     \<and> \<not> col_primary_key c1 \<and> \<not> col_primary_key c2 \<and> \<not> col_primary_key c3
     \<and> \<not> col_primary_key c4
     \<and> map_of (indexes s) i = None \<and> map_of (tables s) i = None
     \<and> s1 = s\<lparr>tables := alter_table t (d\<lparr>columns := columns d @ [c1, c2, c3, c4]\<rparr>) (tables s),
              indexes := indexes s @ [(i, \<lparr>idx_table = t, idx_columns = k, idx_unique = u\<rparr>)]\<rparr>"
  using assms
  by (auto simp: run_Cons_Inr exec_AddColumn_Inr exec_CreateIndex_Inr name_in_use_def
      map_of_alter_table alter_table_twice column_names_def
      simp del: exec.simps run.simps(2) split: option.splits if_splits)


lemma exec_DropColumn_Inr:
  assumes "map_of (tables s) t = Some d"
    and "columns d = cs0 @ c # cs1"
    and "cs0 \<noteq> []"
    and "col_name c \<notin> col_name ` set cs0"
    and "col_name c \<notin> col_name ` set cs1"
    and "\<not> col_primary_key c"
    and "col_name c \<notin> set (map fk_column (foreign_keys d))"
    and "\<not> column_is_indexed s t (col_name c)"
  shows "exec (DropColumn t (col_name c)) s =
     Inr (s\<lparr>tables := alter_table t (d\<lparr>columns := cs0 @ cs1\<rparr>) (tables s)\<rparr>)"
proof -
  have "find (\<lambda>x. col_name x = col_name c) (columns d) = Some c"
    using assms(2,4) by (simp add: find_append_absent)
  moreover have "filter (\<lambda>x. col_name x \<noteq> col_name c) (columns d) = cs0 @ cs1"
    using assms(2,4,5) by (simp add: filter_columns_absent)
  moreover have "\<not> length (columns d) \<le> 1"
    using assms(2,3) by (cases cs0) simp_all
  ultimately show ?thesis
    using assms(1,6,7,8) by simp
qed

lemma column_is_indexed_tables_update:
  "column_is_indexed (s\<lparr>tables := ts\<rparr>) t c = column_is_indexed s t c"
  by (simp add: column_is_indexed_def)

text \<open>DROP INDEX and four ALTER TABLE DROP COLUMN on one table.\<close>

lemma drop_block:
  assumes t: "map_of (tables s) t = Some d"
    and cols: "columns d = cs0 @ [c1, c2, c3, c4]"
    and ne: "cs0 \<noteq> []"
    and dist: "distinct (map col_name (cs0 @ [c1, c2, c3, c4]))"
    and pk: "\<not> col_primary_key c1" "\<not> col_primary_key c2" "\<not> col_primary_key c3"
      "\<not> col_primary_key c4"
    and fk: "col_name c1 \<notin> set (map fk_column (foreign_keys d))"
      "col_name c2 \<notin> set (map fk_column (foreign_keys d))"
      "col_name c3 \<notin> set (map fk_column (foreign_keys d))"
      "col_name c4 \<notin> set (map fk_column (foreign_keys d))"
    and i: "map_of (indexes s) i = Some ix"
    and ixs: "\<not> column_is_indexed (s\<lparr>indexes := filter (\<lambda>(m, j). m \<noteq> i) (indexes s)\<rparr>) t (col_name c1)"
      "\<not> column_is_indexed (s\<lparr>indexes := filter (\<lambda>(m, j). m \<noteq> i) (indexes s)\<rparr>) t (col_name c2)"
      "\<not> column_is_indexed (s\<lparr>indexes := filter (\<lambda>(m, j). m \<noteq> i) (indexes s)\<rparr>) t (col_name c3)"
      "\<not> column_is_indexed (s\<lparr>indexes := filter (\<lambda>(m, j). m \<noteq> i) (indexes s)\<rparr>) t (col_name c4)"
  shows "run [DropIndex i, DropColumn t (col_name c1), DropColumn t (col_name c2),
              DropColumn t (col_name c3), DropColumn t (col_name c4)] s =
     Inr (s\<lparr>tables := alter_table t (d\<lparr>columns := cs0\<rparr>) (tables s),
            indexes := filter (\<lambda>(m, j). m \<noteq> i) (indexes s)\<rparr>)"
proof -
  define s0 where "s0 = s\<lparr>indexes := filter (\<lambda>(m, j). m \<noteq> i) (indexes s)\<rparr>"
  define d1 where "d1 = d\<lparr>columns := cs0 @ [c2, c3, c4]\<rparr>"
  define d2 where "d2 = d\<lparr>columns := cs0 @ [c3, c4]\<rparr>"
  define d3 where "d3 = d\<lparr>columns := cs0 @ [c4]\<rparr>"
  define d4 where "d4 = d\<lparr>columns := cs0\<rparr>"
  define s1 where "s1 = s0\<lparr>tables := alter_table t d1 (tables s)\<rparr>"
  define s2 where "s2 = s0\<lparr>tables := alter_table t d2 (tables s)\<rparr>"
  define s3 where "s3 = s0\<lparr>tables := alter_table t d3 (tables s)\<rparr>"
  define s4 where "s4 = s0\<lparr>tables := alter_table t d4 (tables s)\<rparr>"
  have e0: "exec (DropIndex i) s = Inr s0"
    using i by (simp add: s0_def)
  have t0: "map_of (tables s0) t = Some d" "tables s0 = tables s"
    using t by (simp_all add: s0_def)
  have e1: "exec (DropColumn t (col_name c1)) s0 = Inr s1"
    using exec_DropColumn_Inr [of s0 t d cs0 c1 "[c2, c3, c4]"] t0 cols ne dist pk fk ixs
    by (simp add: s0_def s1_def d1_def)
  have t1: "map_of (tables s1) t = Some d1"
    using t by (simp add: s1_def map_of_alter_table)
  have e2: "exec (DropColumn t (col_name c2)) s1 = Inr s2"
    using exec_DropColumn_Inr [of s1 t d1 cs0 c2 "[c3, c4]"] t1 ne dist pk fk ixs
    by (simp add: s0_def s1_def s2_def d1_def d2_def column_is_indexed_tables_update
        alter_table_twice)
  have t2: "map_of (tables s2) t = Some d2"
    using t by (simp add: s2_def map_of_alter_table)
  have e3: "exec (DropColumn t (col_name c3)) s2 = Inr s3"
    using exec_DropColumn_Inr [of s2 t d2 cs0 c3 "[c4]"] t2 ne dist pk fk ixs
    by (simp add: s0_def s2_def s3_def d2_def d3_def column_is_indexed_tables_update
        alter_table_twice)
  have t3: "map_of (tables s3) t = Some d3"
    using t by (simp add: s3_def map_of_alter_table)
  have e4: "exec (DropColumn t (col_name c4)) s3 = Inr s4"
    using exec_DropColumn_Inr [of s3 t d3 cs0 c4 "[]"] t3 ne dist pk fk ixs
    by (simp add: s0_def s3_def s4_def d3_def d4_def column_is_indexed_tables_update
        alter_table_twice)
  have "s4 = s\<lparr>tables := alter_table t (d\<lparr>columns := cs0\<rparr>) (tables s),
            indexes := filter (\<lambda>(m, j). m \<noteq> i) (indexes s)\<rparr>"
    by (simp add: s4_def s0_def d4_def)
  with e0 e1 e2 e3 e4 show ?thesis
    by (simp del: exec.simps)
qed

lemma wf_schema_table:
  "wf_schema s \<Longrightarrow> map_of (tables s) t = Some d \<Longrightarrow> wf_table d"
  by (auto simp: wf_schema_def list_all_iff dest!: map_of_SomeD)

lemma wf_schema_no_index_on_absent:
  assumes "wf_schema s" and "map_of (tables s) t = None"
  shows "filter (\<lambda>(n, i). idx_table i \<noteq> t) (indexes s) = indexes s"
proof -
  have "idx_table i \<noteq> t" if "(n, i) \<in> set (indexes s)" for n i
  proof -
    from assms(1) that have "wf_index s i"
      by (auto simp: wf_schema_def list_all_iff)
    with assms(2) show ?thesis
      by (auto simp: wf_index_def split: option.splits)
  qed
  then show ?thesis
    by (auto simp: filter_id_conv)
qed

lemma wf_schema_not_indexed:
  assumes "wf_schema s" and "map_of (tables s) t = Some d" and "c \<notin> set (column_names d)"
  shows "\<not> list_ex (\<lambda>(n, i). idx_table i = t \<and> c \<in> set (idx_columns i)) (indexes s)"
proof -
  have "c \<notin> set (idx_columns i)" if "(n, i) \<in> set (indexes s)" and "idx_table i = t" for n i
  proof -
    from assms(1) that(1) have "wf_index s i"
      by (auto simp: wf_schema_def list_all_iff)
    with assms(2,3) that(2) show ?thesis
      by (auto simp: wf_index_def list_all_iff)
  qed
  then show ?thesis
    by (auto simp: list_ex_iff)
qed

lemma wf_table_fk_absent:
  "wf_table d \<Longrightarrow> c \<notin> set (column_names d) \<Longrightarrow> c \<notin> set (map fk_column (foreign_keys d))"
  by (auto simp: wf_table_def list_all_iff)

subsection \<open>Well-formedness is an invariant of the statements\<close>

text \<open>
  The empty schema is well-formed and every statement that succeeds keeps the schema
  well-formed, so every schema that a database reaches is well-formed.
\<close>

lemma wf_schema_empty: "wf_schema \<lparr>tables = [], indexes = []\<rparr>"
  by (simp add: wf_schema_def)

lemma fst_alter_table: "map fst (alter_table t d ts) = map fst ts"
  by (induction ts) (auto simp: alter_table_def)

lemma set_alter_table:
  "(n, d0) \<in> set (alter_table t d ts) \<Longrightarrow> (n = t \<and> d0 = d) \<or> (n \<noteq> t \<and> (n, d0) \<in> set ts)"
  by (auto simp: alter_table_def split: if_splits)

lemma map_of_filter_name:
  "map_of (filter (\<lambda>(n, v). n \<noteq> t) xs) k = (if k = t then None else map_of xs k)"
  by (induction xs) auto

lemma map_of_filter_None:
  "map_of xs k = None \<Longrightarrow> map_of (filter P xs) k = None"
  by (induction xs) auto

lemma wf_schema_iff:
  "wf_schema s \<longleftrightarrow>
     distinct (map fst (tables s)) \<and> distinct (map fst (indexes s))
     \<and> (\<forall>n. map_of (tables s) n = None \<or> map_of (indexes s) n = None)
     \<and> (\<forall>n d. (n, d) \<in> set (tables s) \<longrightarrow> wf_table d)
     \<and> (\<forall>n i. (n, i) \<in> set (indexes s) \<longrightarrow> wf_index s i)"
  by (auto simp: wf_schema_def list_all_iff map_of_eq_None_iff)

lemma distinct_columns_one_name:
  assumes "distinct (map col_name cs)" and "\<forall>x \<in> set cs. col_name x = c"
  shows "length cs \<le> 1"
proof (rule ccontr)
  assume "\<not> length cs \<le> 1"
  then obtain x y zs where cs: "cs = x # y # zs"
    by (cases cs rule: remdups_adj.cases) simp_all
  with assms(2) have "col_name x = col_name y"
    by simp
  with assms(1) cs show False
    by simp
qed

lemma exec_CreateTable_wf_schema:
  assumes "wf_schema s" and "exec (CreateTable n cols fks) s = Inr s'"
  shows "wf_schema s'"
proof -
  from assms(1) have w: "distinct (map fst (tables s))" "distinct (map fst (indexes s))"
    "\<And>k. map_of (tables s) k = None \<or> map_of (indexes s) k = None"
    "\<And>k d. (k, d) \<in> set (tables s) \<Longrightarrow> wf_table d"
    "\<And>k i. (k, i) \<in> set (indexes s) \<Longrightarrow> wf_index s i"
    by (auto simp: wf_schema_iff)
  from assms have new: "map_of (tables s) n = None" "map_of (indexes s) n = None"
      "wf_table \<lparr>columns = cols, foreign_keys = fks\<rparr>"
    and s': "s' = s\<lparr>tables := tables s @ [(n, \<lparr>columns = cols, foreign_keys = fks\<rparr>)]\<rparr>"
    by (auto simp: name_in_use_def wf_table_def column_names_def split: if_splits)
  have ix: "wf_index s' i" if "wf_index s i" for i
    using that new
    by (auto simp: wf_index_def s' map_of_append_case split: option.splits
        simp del: map_of_append)
  show ?thesis
    unfolding wf_schema_iff
  proof (intro conjI allI impI)
    show "distinct (map fst (tables s'))"
      using w(1) new(1) by (simp add: s' map_of_eq_None_iff)
    show "distinct (map fst (indexes s'))"
      using w(2) by (simp add: s')
    show "map_of (tables s') k = None \<or> map_of (indexes s') k = None" for k
      using w(3) [of k] new(2)
      by (auto simp: s' map_of_append_case split: option.splits simp del: map_of_append)
    show "wf_table d" if "(k, d) \<in> set (tables s')" for k d
      using that w(4) new(3) by (auto simp: s')
    show "wf_index s' i" if "(k, i) \<in> set (indexes s')" for k i
      using that w(5) ix by (auto simp: s')
  qed
qed

lemma exec_CreateIndex_wf_schema:
  assumes "wf_schema s" and "exec (CreateIndex u n t cols) s = Inr s'"
  shows "wf_schema s'"
proof -
  from assms(1) have w: "distinct (map fst (tables s))" "distinct (map fst (indexes s))"
    "\<And>k. map_of (tables s) k = None \<or> map_of (indexes s) k = None"
    "\<And>k d. (k, d) \<in> set (tables s) \<Longrightarrow> wf_table d"
    "\<And>k i. (k, i) \<in> set (indexes s) \<Longrightarrow> wf_index s i"
    by (auto simp: wf_schema_iff)
  from assms obtain d where new: "map_of (tables s) n = None" "map_of (indexes s) n = None"
      "map_of (tables s) t = Some d" "list_all (\<lambda>c. c \<in> set (column_names d)) cols"
    and s': "s' = s\<lparr>indexes := indexes s @
        [(n, \<lparr>idx_table = t, idx_columns = cols, idx_unique = u\<rparr>)]\<rparr>"
    by (auto simp: name_in_use_def split: if_splits option.splits)
  have ix: "wf_index s' i" if "wf_index s i" for i
    using that by (simp add: wf_index_def s')
  have nx: "wf_index s' \<lparr>idx_table = t, idx_columns = cols, idx_unique = u\<rparr>"
    using new by (simp add: wf_index_def s')
  show ?thesis
    unfolding wf_schema_iff
  proof (intro conjI allI impI)
    show "distinct (map fst (tables s'))"
      using w(1) by (simp add: s')
    show "distinct (map fst (indexes s'))"
      using w(2) new(2) by (simp add: s' map_of_eq_None_iff)
    show "map_of (tables s') k = None \<or> map_of (indexes s') k = None" for k
      using w(3) [of k] new(1)
      by (auto simp: s' map_of_append_case split: option.splits simp del: map_of_append)
    show "wf_table d" if "(k, d) \<in> set (tables s')" for k d
      using that w(4) by (auto simp: s')
    show "wf_index s' i" if "(k, i) \<in> set (indexes s')" for k i
      using that w(5) ix nx by (auto simp: s')
  qed
qed

lemma exec_AddColumn_wf_schema:
  assumes "wf_schema s" and "exec (AddColumn t c) s = Inr s'"
  shows "wf_schema s'"
proof -
  from assms(1) have w: "distinct (map fst (tables s))" "distinct (map fst (indexes s))"
    "\<And>k. map_of (tables s) k = None \<or> map_of (indexes s) k = None"
    "\<And>k d. (k, d) \<in> set (tables s) \<Longrightarrow> wf_table d"
    "\<And>k i. (k, i) \<in> set (indexes s) \<Longrightarrow> wf_index s i"
    by (auto simp: wf_schema_iff)
  from assms obtain d where old: "map_of (tables s) t = Some d"
      "col_name c \<notin> set (column_names d)"
    and s': "s' = s\<lparr>tables := alter_table t (d\<lparr>columns := columns d @ [c]\<rparr>) (tables s)\<rparr>"
    by (auto split: if_splits option.splits)
  from w(4) old have "wf_table d"
    by (auto dest: map_of_SomeD)
  with old have wd: "wf_table (d\<lparr>columns := columns d @ [c]\<rparr>)"
    by (auto simp: wf_table_def column_names_def list_all_iff)
  have ix: "wf_index s' i" if "wf_index s i" for i
    using that old
    by (auto simp: wf_index_def s' map_of_alter_table column_names_def list_all_iff
        split: option.splits)
  show ?thesis
    unfolding wf_schema_iff
  proof (intro conjI allI impI)
    show "distinct (map fst (tables s'))"
      using w(1) by (simp add: s' fst_alter_table)
    show "distinct (map fst (indexes s'))"
      using w(2) by (simp add: s')
    show "map_of (tables s') k = None \<or> map_of (indexes s') k = None" for k
      using w(3) [of k] old(1) by (auto simp: s' map_of_alter_table)
    show "wf_table d0" if "(k, d0) \<in> set (tables s')" for k d0
      using that w(4) wd by (auto simp: s' dest: set_alter_table)
    show "wf_index s' i" if "(k, i) \<in> set (indexes s')" for k i
      using that w(5) ix by (auto simp: s')
  qed
qed

lemma exec_DropTable_wf_schema:
  assumes "wf_schema s" and "exec (DropTable t) s = Inr s'"
  shows "wf_schema s'"
proof -
  from assms(1) have w: "distinct (map fst (tables s))" "distinct (map fst (indexes s))"
    "\<And>k. map_of (tables s) k = None \<or> map_of (indexes s) k = None"
    "\<And>k d. (k, d) \<in> set (tables s) \<Longrightarrow> wf_table d"
    "\<And>k i. (k, i) \<in> set (indexes s) \<Longrightarrow> wf_index s i"
    by (auto simp: wf_schema_iff)
  from assms obtain d where old: "map_of (tables s) t = Some d"
    and s': "s' = s\<lparr>tables := filter (\<lambda>(n, d0). n \<noteq> t) (tables s),
        indexes := filter (\<lambda>(n, i). idx_table i \<noteq> t) (indexes s)\<rparr>"
    by (auto split: option.splits)
  have ix: "wf_index s' i" if "wf_index s i" and "idx_table i \<noteq> t" for i
    using that by (auto simp: wf_index_def s' map_of_filter_name split: option.splits)
  show ?thesis
    unfolding wf_schema_iff
  proof (intro conjI allI impI)
    show "distinct (map fst (tables s'))"
      using w(1) by (simp add: s' distinct_map_filter)
    show "distinct (map fst (indexes s'))"
      using w(2) by (simp add: s' distinct_map_filter)
    show "map_of (tables s') k = None \<or> map_of (indexes s') k = None" for k
      using w(3) [of k] by (auto simp: s' map_of_filter_name map_of_filter_None)
    show "wf_table d0" if "(k, d0) \<in> set (tables s')" for k d0
      using that w(4) by (auto simp: s')
    show "wf_index s' i" if "(k, i) \<in> set (indexes s')" for k i
      using that w(5) ix by (auto simp: s')
  qed
qed

lemma exec_DropIndex_wf_schema:
  assumes "wf_schema s" and "exec (DropIndex n) s = Inr s'"
  shows "wf_schema s'"
proof -
  from assms(1) have w: "distinct (map fst (tables s))" "distinct (map fst (indexes s))"
    "\<And>k. map_of (tables s) k = None \<or> map_of (indexes s) k = None"
    "\<And>k d. (k, d) \<in> set (tables s) \<Longrightarrow> wf_table d"
    "\<And>k i. (k, i) \<in> set (indexes s) \<Longrightarrow> wf_index s i"
    by (auto simp: wf_schema_iff)
  from assms have s': "s' = s\<lparr>indexes := filter (\<lambda>(m, j). m \<noteq> n) (indexes s)\<rparr>"
    by (auto split: option.splits)
  have ix: "wf_index s' i" if "wf_index s i" for i
    using that by (simp add: wf_index_def s')
  show ?thesis
    unfolding wf_schema_iff
  proof (intro conjI allI impI)
    show "distinct (map fst (tables s'))"
      using w(1) by (simp add: s')
    show "distinct (map fst (indexes s'))"
      using w(2) by (simp add: s' distinct_map_filter)
    show "map_of (tables s') k = None \<or> map_of (indexes s') k = None" for k
      using w(3) [of k] by (auto simp: s' map_of_filter_None)
    show "wf_table d0" if "(k, d0) \<in> set (tables s')" for k d0
      using that w(4) by (auto simp: s')
    show "wf_index s' i" if "(k, i) \<in> set (indexes s')" for k i
      using that w(5) ix by (auto simp: s')
  qed
qed

lemma exec_DropColumn_wf_schema:
  assumes "wf_schema s" and "exec (DropColumn t c) s = Inr s'"
  shows "wf_schema s'"
proof -
  from assms(1) have w: "distinct (map fst (tables s))" "distinct (map fst (indexes s))"
    "\<And>k. map_of (tables s) k = None \<or> map_of (indexes s) k = None"
    "\<And>k d. (k, d) \<in> set (tables s) \<Longrightarrow> wf_table d"
    "\<And>k i. (k, i) \<in> set (indexes s) \<Longrightarrow> wf_index s i"
    by (auto simp: wf_schema_iff)
  from assms obtain d x where old: "map_of (tables s) t = Some d"
      "find (\<lambda>x. col_name x = c) (columns d) = Some x"
      "c \<notin> set (map fk_column (foreign_keys d))" "\<not> column_is_indexed s t c"
      "\<not> length (columns d) \<le> 1"
    and s': "s' = s\<lparr>tables :=
        alter_table t (d\<lparr>columns := filter (\<lambda>x. col_name x \<noteq> c) (columns d)\<rparr>) (tables s)\<rparr>"
    by (auto split: if_splits option.splits)
  from w(4) old have wfd: "wf_table d"
    by (auto dest: map_of_SomeD)
  have ne: "filter (\<lambda>x. col_name x \<noteq> c) (columns d) \<noteq> []"
  proof
    assume "filter (\<lambda>x. col_name x \<noteq> c) (columns d) = []"
    then have "\<forall>x \<in> set (columns d). col_name x = c"
      by (simp add: filter_empty_conv)
    with wfd have "length (columns d) \<le> 1"
      using distinct_columns_one_name [of "columns d" c]
      by (simp add: wf_table_def column_names_def)
    with old(5) show False by simp
  qed
  have wd: "wf_table (d\<lparr>columns := filter (\<lambda>x. col_name x \<noteq> c) (columns d)\<rparr>)"
    unfolding wf_table_def column_names_def list_all_iff
  proof (intro conjI ballI)
    show "columns (d\<lparr>columns := filter (\<lambda>x. col_name x \<noteq> c) (columns d)\<rparr>) \<noteq> []"
      using ne by simp
    show "distinct (map col_name
        (columns (d\<lparr>columns := filter (\<lambda>x. col_name x \<noteq> c) (columns d)\<rparr>)))"
      using wfd by (simp add: wf_table_def column_names_def distinct_map_filter)
    fix fk
    assume "fk \<in> set (foreign_keys
        (d\<lparr>columns := filter (\<lambda>x. col_name x \<noteq> c) (columns d)\<rparr>))"
    then have "fk_column fk \<in> col_name ` set (columns d)" and "fk_column fk \<noteq> c"
      using wfd old(3) by (auto simp: wf_table_def column_names_def list_all_iff)
    then show "fk_column fk \<in> set (map col_name
        (columns (d\<lparr>columns := filter (\<lambda>x. col_name x \<noteq> c) (columns d)\<rparr>)))"
      by auto
  qed
  have ix: "wf_index s' i" if wi: "wf_index s i" and mem: "(n, i) \<in> set (indexes s)" for n i
  proof (cases "idx_table i = t")
    case True
    from old(4) mem True have nc: "c \<notin> set (idx_columns i)"
      by (auto simp: column_is_indexed_def list_ex_iff)
    from wi True old(1) have sub: "set (idx_columns i) \<subseteq> col_name ` set (columns d)"
      by (auto simp: wf_index_def column_names_def list_all_iff)
    have "set (idx_columns i) \<subseteq>
        col_name ` set (filter (\<lambda>x. col_name x \<noteq> c) (columns d))"
    proof
      fix k
      assume k: "k \<in> set (idx_columns i)"
      with sub obtain x where "x \<in> set (columns d)" and "k = col_name x"
        by blast
      moreover from k nc have "k \<noteq> c"
        by blast
      ultimately show "k \<in> col_name ` set (filter (\<lambda>x. col_name x \<noteq> c) (columns d))"
        by simp
    qed
    with True old(1) show ?thesis
      by (simp add: wf_index_def s' map_of_alter_table column_names_def list_all_iff subset_iff)
  next
    case False
    with wi show ?thesis
      by (auto simp: wf_index_def s' map_of_alter_table split: option.splits)
  qed
  show ?thesis
    unfolding wf_schema_iff
  proof (intro conjI allI impI)
    show "distinct (map fst (tables s'))"
      using w(1) by (simp add: s' fst_alter_table)
    show "distinct (map fst (indexes s'))"
      using w(2) by (simp add: s')
    show "map_of (tables s') k = None \<or> map_of (indexes s') k = None" for k
      using w(3) [of k] old(1) by (auto simp: s' map_of_alter_table)
    show "wf_table d0" if "(k, d0) \<in> set (tables s')" for k d0
      using that w(4) wd by (auto simp: s' dest: set_alter_table)
    show "wf_index s' i" if "(k, i) \<in> set (indexes s')" for k i
      using that w(5) ix by (auto simp: s')
  qed
qed

lemma exec_preserves_wf_schema:
  assumes "wf_schema s" and "exec st s = Inr s'"
  shows "wf_schema s'"
  using assms
  by (cases st)
    (blast intro: exec_CreateTable_wf_schema exec_CreateIndex_wf_schema exec_AddColumn_wf_schema exec_DropTable_wf_schema exec_DropIndex_wf_schema exec_DropColumn_wf_schema)+

lemma run_preserves_wf_schema:
  "wf_schema s \<Longrightarrow> run sts s = Inr s' \<Longrightarrow> wf_schema s'"
proof (induction sts arbitrary: s)
  case Nil
  then show ?case by simp
next
  case (Cons st sts)
  then show ?case
    by (auto split: sum.splits dest: exec_preserves_wf_schema)
qed

subsection \<open>The round trip\<close>

lemma alter_table_Nil: "alter_table t d [] = []"
  by (simp add: alter_table_def)

lemma alter_table_Cons:
  "alter_table t d ((n, d0) # ts) = (if n = t then (n, d) else (n, d0)) # alter_table t d ts"
  by (simp add: alter_table_def)

lemma up_blocks:
  "\<exists>c1 f1 c2 f2. up =
     [CreateTable ''products_gallery'' c1 f1,
      CreateIndex False ''products_gallery_order_idx'' ''products_gallery'' [''_order''],
      CreateIndex False ''products_gallery_parent_id_idx'' ''products_gallery'' [''_parent_id''],
      CreateIndex False ''products_gallery_image_idx'' ''products_gallery'' [''image_id'']]
     @ [CreateTable ''_products_v_version_gallery'' c2 f2,
        CreateIndex False ''_products_v_version_gallery_order_idx''
          ''_products_v_version_gallery'' [''_order''],
        CreateIndex False ''_products_v_version_gallery_parent_id_idx''
          ''_products_v_version_gallery'' [''_parent_id''],
        CreateIndex False ''_products_v_version_gallery_image_idx''
          ''_products_v_version_gallery'' [''image_id'']]
     @ [AddColumn ''products'' (plain_column ''title'' TextType),
        AddColumn ''products'' (plain_column ''slug'' TextType),
        AddColumn ''products'' (plain_column ''sku'' TextType),
        AddColumn ''products'' (plain_column ''copy'' TextType),
        CreateIndex True ''products_slug_idx'' ''products'' [''slug'']]
     @ [AddColumn ''_products_v'' (plain_column ''version_title'' TextType),
        AddColumn ''_products_v'' (plain_column ''version_slug'' TextType),
        AddColumn ''_products_v'' (plain_column ''version_sku'' TextType),
        AddColumn ''_products_v'' (plain_column ''version_copy'' TextType),
        CreateIndex False ''_products_v_version_version_slug_idx'' ''_products_v''
          [''version_slug'']]"
  by (simp add: up_def)

lemma down_blocks:
  "down =
     [DropTable ''products_gallery'', DropTable ''_products_v_version_gallery'']
     @ [DropIndex ''products_slug_idx'',
        DropColumn ''products'' (col_name (plain_column ''title'' TextType)),
        DropColumn ''products'' (col_name (plain_column ''slug'' TextType)),
        DropColumn ''products'' (col_name (plain_column ''sku'' TextType)),
        DropColumn ''products'' (col_name (plain_column ''copy'' TextType))]
     @ [DropIndex ''_products_v_version_version_slug_idx'',
        DropColumn ''_products_v'' (col_name (plain_column ''version_title'' TextType)),
        DropColumn ''_products_v'' (col_name (plain_column ''version_slug'' TextType)),
        DropColumn ''_products_v'' (col_name (plain_column ''version_sku'' TextType)),
        DropColumn ''_products_v'' (col_name (plain_column ''version_copy'' TextType))]"
  by (simp add: down_def plain_column_def)

lemma run_append_Inr:
  "run (xs @ ys) s = Inr s' \<longleftrightarrow> (\<exists>s1. run xs s = Inr s1 \<and> run ys s1 = Inr s')"
  by (auto simp: run_append split: sum.splits)

lemma run_append_InrI:
  "run xs s = Inr s1 \<Longrightarrow> run ys s1 = Inr s' \<Longrightarrow> run (xs @ ys) s = Inr s'"
  by (simp add: run_append)

text \<open>
  Claim C6. For every well-formed schema on which the \<open>up\<close> script of migration
  20251202_023627 runs to its end, the \<open>down\<close> script run on the result succeeds and gives
  back the schema \<open>up\<close> started from, so that no other table, column or index has
  changed. What \<open>up\<close> creates, the two tables, their six indexes, the two slug indexes and
  the eight columns, is in the schema after \<open>up\<close> and is not in the schema that \<open>down\<close>
  gives back.
\<close>

theorem down_after_up_restores_schema:
  assumes wf: "wf_schema s" and up: "run up s = Inr s'"
  shows "run down s' = Inr s
     \<and> list_all (\<lambda>n. name_in_use s' n \<and> \<not> name_in_use s n)
          [''products_gallery'', ''products_gallery_order_idx'',
           ''products_gallery_parent_id_idx'', ''products_gallery_image_idx'',
           ''_products_v_version_gallery'', ''_products_v_version_gallery_order_idx'',
           ''_products_v_version_gallery_parent_id_idx'',
           ''_products_v_version_gallery_image_idx'',
           ''products_slug_idx'', ''_products_v_version_version_slug_idx'']
     \<and> list_all (\<lambda>c. has_column s' ''products'' c \<and> \<not> has_column s ''products'' c)
          [''title'', ''slug'', ''sku'', ''copy'']
     \<and> list_all (\<lambda>c. has_column s' ''_products_v'' c \<and> \<not> has_column s ''_products_v'' c)
          [''version_title'', ''version_slug'', ''version_sku'', ''version_copy'']"
proof -
  let ?pg = "''products_gallery''" and ?pvg = "''_products_v_version_gallery''"
  let ?p = "''products''" and ?pv = "''_products_v''"
  let ?si = "''products_slug_idx''" and ?vi = "''_products_v_version_version_slug_idx''"
  from up_blocks obtain c1 f1 c2 f2 where blocks: "up =
     [CreateTable ?pg c1 f1,
      CreateIndex False ''products_gallery_order_idx'' ?pg [''_order''],
      CreateIndex False ''products_gallery_parent_id_idx'' ?pg [''_parent_id''],
      CreateIndex False ''products_gallery_image_idx'' ?pg [''image_id'']]
     @ [CreateTable ?pvg c2 f2,
        CreateIndex False ''_products_v_version_gallery_order_idx'' ?pvg [''_order''],
        CreateIndex False ''_products_v_version_gallery_parent_id_idx'' ?pvg [''_parent_id''],
        CreateIndex False ''_products_v_version_gallery_image_idx'' ?pvg [''image_id'']]
     @ [AddColumn ?p (plain_column ''title'' TextType),
        AddColumn ?p (plain_column ''slug'' TextType),
        AddColumn ?p (plain_column ''sku'' TextType),
        AddColumn ?p (plain_column ''copy'' TextType),
        CreateIndex True ?si ?p [''slug'']]
     @ [AddColumn ?pv (plain_column ''version_title'' TextType),
        AddColumn ?pv (plain_column ''version_slug'' TextType),
        AddColumn ?pv (plain_column ''version_sku'' TextType),
        AddColumn ?pv (plain_column ''version_copy'' TextType),
        CreateIndex False ?vi ?pv [''version_slug'']]"
    by blast
  from up obtain s1 s2 s3 where
    r1: "run [CreateTable ?pg c1 f1,
      CreateIndex False ''products_gallery_order_idx'' ?pg [''_order''],
      CreateIndex False ''products_gallery_parent_id_idx'' ?pg [''_parent_id''],
      CreateIndex False ''products_gallery_image_idx'' ?pg [''image_id'']] s = Inr s1" and
    r2: "run [CreateTable ?pvg c2 f2,
        CreateIndex False ''_products_v_version_gallery_order_idx'' ?pvg [''_order''],
        CreateIndex False ''_products_v_version_gallery_parent_id_idx'' ?pvg [''_parent_id''],
        CreateIndex False ''_products_v_version_gallery_image_idx'' ?pvg [''image_id'']] s1
        = Inr s2" and
    r3: "run [AddColumn ?p (plain_column ''title'' TextType),
        AddColumn ?p (plain_column ''slug'' TextType),
        AddColumn ?p (plain_column ''sku'' TextType),
        AddColumn ?p (plain_column ''copy'' TextType),
        CreateIndex True ?si ?p [''slug'']] s2 = Inr s3" and
    r4: "run [AddColumn ?pv (plain_column ''version_title'' TextType),
        AddColumn ?pv (plain_column ''version_slug'' TextType),
        AddColumn ?pv (plain_column ''version_sku'' TextType),
        AddColumn ?pv (plain_column ''version_copy'' TextType),
        CreateIndex False ?vi ?pv [''version_slug'']] s3 = Inr s'"
    unfolding blocks run_append_Inr by blast
  note A = create_block [OF r1]
  note B = create_block [OF r2]
  from alter_block [OF r3] obtain dp where C:
    "map_of (tables s2) ?p = Some dp"
    "col_name (plain_column ''title'' TextType) \<notin> set (column_names dp)"
    "col_name (plain_column ''slug'' TextType) \<notin> set (column_names dp)"
    "col_name (plain_column ''sku'' TextType) \<notin> set (column_names dp)"
    "col_name (plain_column ''copy'' TextType) \<notin> set (column_names dp)"
    "map_of (indexes s2) ?si = None"
    "s3 = s2\<lparr>tables := alter_table ?p (dp\<lparr>columns := columns dp @
          [plain_column ''title'' TextType, plain_column ''slug'' TextType,
           plain_column ''sku'' TextType, plain_column ''copy'' TextType]\<rparr>) (tables s2),
        indexes := indexes s2 @
          [(?si, \<lparr>idx_table = ?p, idx_columns = [''slug''], idx_unique = True\<rparr>)]\<rparr>"
    "map_of (tables s2) ?si = None"
    by blast
  from alter_block [OF r4] obtain dv where D:
    "map_of (tables s3) ?pv = Some dv"
    "col_name (plain_column ''version_title'' TextType) \<notin> set (column_names dv)"
    "col_name (plain_column ''version_slug'' TextType) \<notin> set (column_names dv)"
    "col_name (plain_column ''version_sku'' TextType) \<notin> set (column_names dv)"
    "col_name (plain_column ''version_copy'' TextType) \<notin> set (column_names dv)"
    "map_of (indexes s3) ?vi = None"
    "s' = s3\<lparr>tables := alter_table ?pv (dv\<lparr>columns := columns dv @
          [plain_column ''version_title'' TextType, plain_column ''version_slug'' TextType,
           plain_column ''version_sku'' TextType, plain_column ''version_copy'' TextType]\<rparr>)
          (tables s3),
        indexes := indexes s3 @
          [(?vi, \<lparr>idx_table = ?pv, idx_columns = [''version_slug''], idx_unique = False\<rparr>)]\<rparr>"
    "map_of (tables s3) ?vi = None"
    by blast
  define T where "T = tables s"
  define I where "I = indexes s"
  define dp' where "dp' = dp\<lparr>columns := columns dp @
          [plain_column ''title'' TextType, plain_column ''slug'' TextType,
           plain_column ''sku'' TextType, plain_column ''copy'' TextType]\<rparr>"
  define dv' where "dv' = dv\<lparr>columns := columns dv @
          [plain_column ''version_title'' TextType, plain_column ''version_slug'' TextType,
           plain_column ''version_sku'' TextType, plain_column ''version_copy'' TextType]\<rparr>"
  define new_tables where "new_tables =
     [(?pg, \<lparr>columns = c1, foreign_keys = f1\<rparr>), (?pvg, \<lparr>columns = c2, foreign_keys = f2\<rparr>)]"
  define gallery_indexes where "gallery_indexes =
     [(''products_gallery_order_idx'',
       \<lparr>idx_table = ?pg, idx_columns = [''_order''], idx_unique = False\<rparr>),
      (''products_gallery_parent_id_idx'',
       \<lparr>idx_table = ?pg, idx_columns = [''_parent_id''], idx_unique = False\<rparr>),
      (''products_gallery_image_idx'',
       \<lparr>idx_table = ?pg, idx_columns = [''image_id''], idx_unique = False\<rparr>)]"
  define version_gallery_indexes where "version_gallery_indexes =
     [(''_products_v_version_gallery_order_idx'',
       \<lparr>idx_table = ?pvg, idx_columns = [''_order''], idx_unique = False\<rparr>),
      (''_products_v_version_gallery_parent_id_idx'',
       \<lparr>idx_table = ?pvg, idx_columns = [''_parent_id''], idx_unique = False\<rparr>),
      (''_products_v_version_gallery_image_idx'',
       \<lparr>idx_table = ?pvg, idx_columns = [''image_id''], idx_unique = False\<rparr>)]"
  define slug_indexes where "slug_indexes =
     [(?si, \<lparr>idx_table = ?p, idx_columns = [''slug''], idx_unique = True\<rparr>),
      (?vi, \<lparr>idx_table = ?pv, idx_columns = [''version_slug''], idx_unique = False\<rparr>)]"

  txt \<open>What the success of \<open>up\<close> says about the schema before it.\<close>
  have s1: "s1 = s\<lparr>tables := T @ [(?pg, \<lparr>columns = c1, foreign_keys = f1\<rparr>)],
                    indexes := I @ gallery_indexes\<rparr>"
    using A by (simp add: T_def I_def gallery_indexes_def)
  have pg: "map_of T ?pg = None"
    using A by (simp add: T_def)
  have s2: "s2 = s\<lparr>tables := T @ new_tables,
                    indexes := I @ gallery_indexes @ version_gallery_indexes\<rparr>"
    using B by (simp add: s1 new_tables_def version_gallery_indexes_def)
  have pvg: "map_of T ?pvg = None"
    using B by (simp add: s1 map_of_append_case split: option.splits del: map_of_append)
  have p: "map_of T ?p = Some dp"
    using C(1)
    by (simp add: s2 new_tables_def map_of_append_case split: option.splits if_splits
        del: map_of_append)
  have si: "map_of I ?si = None"
    using C(6)
    by (simp add: s2 map_of_append_case split: option.splits del: map_of_append)
  have s3: "s3 = s\<lparr>tables := alter_table ?p dp' T @ new_tables,
                    indexes := I @ gallery_indexes @ version_gallery_indexes @
                      [(?si, \<lparr>idx_table = ?p, idx_columns = [''slug''], idx_unique = True\<rparr>)]\<rparr>"
    using C(7)
    by (simp add: s2 dp'_def new_tables_def alter_table_append alter_table_Cons alter_table_Nil)
  have pv: "map_of T ?pv = Some dv"
    using D(1)
    by (simp add: s3 new_tables_def map_of_append_case map_of_alter_table
        split: option.splits if_splits del: map_of_append)
  have vi: "map_of I ?vi = None"
    using D(6)
    by (simp add: s3 map_of_append_case split: option.splits del: map_of_append)
  have s': "s' = s\<lparr>tables := alter_table ?pv dv' (alter_table ?p dp' T) @ new_tables,
                    indexes := I @ gallery_indexes @ version_gallery_indexes @ slug_indexes\<rparr>"
    using D(7)
    by (simp add: s3 dv'_def new_tables_def slug_indexes_def alter_table_append
        alter_table_Cons alter_table_Nil)

  txt \<open>What well-formedness gives for the two altered tables and the old indexes.\<close>
  have dT: "distinct (map fst T)"
    using wf by (simp add: wf_schema_def T_def)
  have wdp: "wf_table dp"
    using wf_schema_table [OF wf] p by (simp add: T_def)
  have wdv: "wf_table dv"
    using wf_schema_table [OF wf] pv by (simp add: T_def)
  have fkp: "c \<notin> set (map fk_column (foreign_keys dp))" if "c \<notin> set (column_names dp)" for c
    using wf_table_fk_absent [OF wdp that] .
  have fkv: "c \<notin> set (map fk_column (foreign_keys dv))" if "c \<notin> set (column_names dv)" for c
    using wf_table_fk_absent [OF wdv that] .
  have fI: "filter (\<lambda>(n, i). idx_table i \<noteq> ?pg) I = I"
    "filter (\<lambda>(n, i). idx_table i \<noteq> ?pvg) I = I"
    using wf_schema_no_index_on_absent [OF wf] pg pvg by (simp_all add: T_def I_def)
  have nI: "filter (\<lambda>(m, j). m \<noteq> ?si) I = I" "filter (\<lambda>(m, j). m \<noteq> ?vi) I = I"
    using si vi by (simp_all add: filter_name_absent)
  have ip: "\<not> list_ex (\<lambda>(n, i). idx_table i = ?p \<and> c \<in> set (idx_columns i)) I"
    if "c \<notin> set (column_names dp)" for c
    using wf_schema_not_indexed [OF wf, of ?p dp c] p that by (simp add: T_def I_def)
  have ipv: "\<not> list_ex (\<lambda>(n, i). idx_table i = ?pv \<and> c \<in> set (idx_columns i)) I"
    if "c \<notin> set (column_names dv)" for c
    using wf_schema_not_indexed [OF wf, of ?pv dv c] pv that by (simp add: T_def I_def)

  txt \<open>The two DROP TABLE statements.\<close>
  define X where "X = alter_table ?pv dv' (alter_table ?p dp' T)"
  have X: "map_of X ?pg = None" "map_of X ?pvg = None"
    "map_of X ?p = Some dp'" "map_of X ?pv = Some dv'"
    using pg pvg p pv by (simp_all add: X_def map_of_alter_table)
  have fX: "filter (\<lambda>(n, d0). n \<noteq> ?pg) X = X" "filter (\<lambda>(n, d0). n \<noteq> ?pvg) X = X"
    using X by (simp_all add: filter_name_absent)
  define s6 where "s6 = s\<lparr>tables := X, indexes := I @ slug_indexes\<rparr>"
  have down1: "run [DropTable ?pg, DropTable ?pvg] s' = Inr s6"
    using X fX fI
    by (simp add: s' s6_def X_def [symmetric] new_tables_def gallery_indexes_def
        version_gallery_indexes_def slug_indexes_def map_of_append_case del: map_of_append)

  txt \<open>The index and the four columns of \<^verbatim>\<open>products\<close>.\<close>
  define s7 where "s7 = s\<lparr>tables := alter_table ?p dp (alter_table ?pv dv' T),
      indexes := I @ [(?vi, \<lparr>idx_table = ?pv, idx_columns = [''version_slug''],
                          idx_unique = False\<rparr>)]\<rparr>"
  have "run [DropIndex ?si,
        DropColumn ?p (col_name (plain_column ''title'' TextType)),
        DropColumn ?p (col_name (plain_column ''slug'' TextType)),
        DropColumn ?p (col_name (plain_column ''sku'' TextType)),
        DropColumn ?p (col_name (plain_column ''copy'' TextType))] s6 =
     Inr (s6\<lparr>tables := alter_table ?p (dp'\<lparr>columns := columns dp\<rparr>) (tables s6),
            indexes := filter (\<lambda>(m, j). m \<noteq> ?si) (indexes s6)\<rparr>)"
  proof (rule drop_block)
    show "map_of (tables s6) ?p = Some dp'"
      using X by (simp add: s6_def)
    show "columns dp' = columns dp @
          [plain_column ''title'' TextType, plain_column ''slug'' TextType,
           plain_column ''sku'' TextType, plain_column ''copy'' TextType]"
      by (simp add: dp'_def)
    show "columns dp \<noteq> []"
      using wdp by (simp add: wf_table_def)
    show "distinct (map col_name (columns dp @
          [plain_column ''title'' TextType, plain_column ''slug'' TextType,
           plain_column ''sku'' TextType, plain_column ''copy'' TextType]))"
      using wdp C(2-5) by (simp add: wf_table_def column_names_def plain_column_def)
    show "map_of (indexes s6) ?si =
        Some \<lparr>idx_table = ?p, idx_columns = [''slug''], idx_unique = True\<rparr>"
      using si by (simp add: s6_def slug_indexes_def map_of_append_case del: map_of_append)
  qed (use C(2-5) ip fkp nI in
      \<open>simp_all add: dp'_def s6_def slug_indexes_def column_is_indexed_def plain_column_def\<close>)
  then have down2: "run [DropIndex ?si,
        DropColumn ?p (col_name (plain_column ''title'' TextType)),
        DropColumn ?p (col_name (plain_column ''slug'' TextType)),
        DropColumn ?p (col_name (plain_column ''sku'' TextType)),
        DropColumn ?p (col_name (plain_column ''copy'' TextType))] s6 = Inr s7"
    using nI
    by (simp add: s6_def s7_def X_def dp'_def slug_indexes_def alter_table_over
        del: exec.simps run.simps)

  txt \<open>The index and the four columns of \<^verbatim>\<open>_products_v\<close>.\<close>
  have "run [DropIndex ?vi,
        DropColumn ?pv (col_name (plain_column ''version_title'' TextType)),
        DropColumn ?pv (col_name (plain_column ''version_slug'' TextType)),
        DropColumn ?pv (col_name (plain_column ''version_sku'' TextType)),
        DropColumn ?pv (col_name (plain_column ''version_copy'' TextType))] s7 =
     Inr (s7\<lparr>tables := alter_table ?pv (dv'\<lparr>columns := columns dv\<rparr>) (tables s7),
            indexes := filter (\<lambda>(m, j). m \<noteq> ?vi) (indexes s7)\<rparr>)"
  proof (rule drop_block)
    show "map_of (tables s7) ?pv = Some dv'"
      using pv by (simp add: s7_def map_of_alter_table)
    show "columns dv' = columns dv @
          [plain_column ''version_title'' TextType, plain_column ''version_slug'' TextType,
           plain_column ''version_sku'' TextType, plain_column ''version_copy'' TextType]"
      by (simp add: dv'_def)
    show "columns dv \<noteq> []"
      using wdv by (simp add: wf_table_def)
    show "distinct (map col_name (columns dv @
          [plain_column ''version_title'' TextType, plain_column ''version_slug'' TextType,
           plain_column ''version_sku'' TextType, plain_column ''version_copy'' TextType]))"
      using wdv D(2-5) by (simp add: wf_table_def column_names_def plain_column_def)
    show "map_of (indexes s7) ?vi =
        Some \<lparr>idx_table = ?pv, idx_columns = [''version_slug''], idx_unique = False\<rparr>"
      using vi by (simp add: s7_def map_of_append_case del: map_of_append)
  qed (use D(2-5) ipv fkv nI in
      \<open>simp_all add: dv'_def s7_def column_is_indexed_def plain_column_def\<close>)
  moreover have "alter_table ?pv dv (alter_table ?p dp T) = T"
    using dT p pv by (simp add: alter_table_same)
  ultimately have down3: "run [DropIndex ?vi,
        DropColumn ?pv (col_name (plain_column ''version_title'' TextType)),
        DropColumn ?pv (col_name (plain_column ''version_slug'' TextType)),
        DropColumn ?pv (col_name (plain_column ''version_sku'' TextType)),
        DropColumn ?pv (col_name (plain_column ''version_copy'' TextType))] s7 = Inr s"
    using nI
    by (simp add: s7_def dv'_def alter_table_over T_def I_def del: exec.simps run.simps)

  have restored: "run down s' = Inr s"
    unfolding down_blocks
    by (intro run_append_InrI [OF down1] run_append_InrI [OF down2] down3)

  txt \<open>What \<open>up\<close> created is in the schema after \<open>up\<close> and not in the schema before it.\<close>
  have before1: "\<not> name_in_use s ?pg" "\<not> name_in_use s ''products_gallery_order_idx''"
    "\<not> name_in_use s ''products_gallery_parent_id_idx''"
    "\<not> name_in_use s ''products_gallery_image_idx''"
    using A by (simp_all add: name_in_use_def)
  have before2: "\<not> name_in_use s ?pvg"
    "\<not> name_in_use s ''_products_v_version_gallery_order_idx''"
    "\<not> name_in_use s ''_products_v_version_gallery_parent_id_idx''"
    "\<not> name_in_use s ''_products_v_version_gallery_image_idx''"
    using B
    by (simp_all add: name_in_use_def s1 T_def [symmetric] I_def [symmetric] map_of_append_case
        split: option.splits del: map_of_append)
  have before3: "\<not> name_in_use s ?si"
    using C(6,8)
    by (simp add: name_in_use_def s2 T_def [symmetric] I_def [symmetric] map_of_append_case
        split: option.splits del: map_of_append)
  have before4: "\<not> name_in_use s ?vi"
    using D(6,8)
    by (simp add: name_in_use_def s3 T_def [symmetric] I_def [symmetric] map_of_append_case
        map_of_alter_table split: option.splits if_splits del: map_of_append)
  have after: "name_in_use s' ?pg" "name_in_use s' ''products_gallery_order_idx''"
    "name_in_use s' ''products_gallery_parent_id_idx''"
    "name_in_use s' ''products_gallery_image_idx''"
    "name_in_use s' ?pvg"
    "name_in_use s' ''_products_v_version_gallery_order_idx''"
    "name_in_use s' ''_products_v_version_gallery_parent_id_idx''"
    "name_in_use s' ''_products_v_version_gallery_image_idx''"
    "name_in_use s' ?si" "name_in_use s' ?vi"
    using X
    by (simp_all add: name_in_use_def s' X_def [symmetric] new_tables_def gallery_indexes_def
        version_gallery_indexes_def slug_indexes_def map_of_append_case
        split: option.splits del: map_of_append)
  have tp: "map_of (tables s') ?p = Some dp'" and tpv: "map_of (tables s') ?pv = Some dv'"
    using X(3,4)
    by (simp_all add: s' X_def [symmetric] map_of_append_case del: map_of_append)
  have cnp: "column_names dp' = column_names dp @ [''title'', ''slug'', ''sku'', ''copy'']"
    by (simp add: dp'_def column_names_def plain_column_def)
  have cnv: "column_names dv' = column_names dv @
      [''version_title'', ''version_slug'', ''version_sku'', ''version_copy'']"
    by (simp add: dv'_def column_names_def plain_column_def)
  have cols_p: "has_column s' ?p c \<and> \<not> has_column s ?p c"
    if "c \<in> {''title'', ''slug'', ''sku'', ''copy''}" for c
    using that tp p cnp C(2-5)
    by (auto simp: has_column_def T_def [symmetric] plain_column_def)
  have cols_pv: "has_column s' ?pv c \<and> \<not> has_column s ?pv c"
    if "c \<in> {''version_title'', ''version_slug'', ''version_sku'', ''version_copy''}" for c
    using that tpv pv cnv D(2-5)
    by (auto simp: has_column_def T_def [symmetric] plain_column_def)
  from restored before1 before2 before3 before4 after cols_p cols_pv show ?thesis
    by simp
qed


theorem down_after_up_restores_schema_witness:
  "wf_schema schema_before \<and> \<not> isl (run up schema_before)
   \<and> run down (projr (run up schema_before)) = Inr schema_before"
proof -
  have wf: "wf_schema schema_before"
    by (simp add: wf_schema_def wf_table_def wf_index_def schema_before_def column_names_def
        primary_key_column_def plain_column_def references_def)
  have "\<not> isl (run up schema_before)"
    by code_simp
  then obtain s' where up: "run up schema_before = Inr s'"
    by (cases "run up schema_before") simp_all
  from down_after_up_restores_schema [OF wf up] up wf show ?thesis
    by simp
qed

end
